theory Spec2Isabelle
  imports Main "HOL-Library.Word"
begin

unbundle bit_operations_syntax

section \<open>lock\_files.py: the cipher layer\<close>

text \<open>
  The embedding follows \<^verbatim>\<open>src/lock_files.py\<close> as Python 3 runs it
  (\<^verbatim>\<open>sys.version_info[0] == 3\<close>): file contents, passwords, keys and blobs are
  \<^verbatim>\<open>bytes\<close>, here lists of 8-bit words. Python integers that count bytes are
  natural numbers. An exception is a value of \<open>py_exc\<close>, and a function that can raise
  returns \<open>py_exc + 'a\<close> with \<open>Inl\<close> for the exception.
\<close>

type_synonym byte = "8 word"
type_synonym bytes = "byte list"

datatype py_exc = ValueError | IOError | IndexError | SystemExit int

subsection \<open>Python list primitives\<close>

text \<open>\<^verbatim>\<open>xs[i]\<close> for \<open>i \<ge> 0\<close>: IndexError when out of range.\<close>

definition py_index :: "'a list \<Rightarrow> nat \<Rightarrow> py_exc + 'a" where
  "py_index xs i = (if i < length xs then Inr (xs ! i) else Inl IndexError)"

text \<open>
  \<^verbatim>\<open>s[:-u]\<close> for \<open>u \<ge> 0\<close>. The stop index \<open>-0\<close> is \<open>0\<close>, so \<open>u = 0\<close> gives the
  empty slice; a stop index before the start of the sequence is clamped to the start.
\<close>

definition slice_to_minus :: "'a list \<Rightarrow> nat \<Rightarrow> 'a list" where
  "slice_to_minus s u = (if u = 0 then [] else if length s < u then [] else take (length s - u) s)"

subsection \<open>The external libraries\<close>

text \<open>
  \<^verbatim>\<open>base64\<close> and \<^verbatim>\<open>Crypto.Cipher.AES\<close> are not code of the repository. They
  are a parameter of the model: the two base64 functions (\<open>None\<close> is
  \<^verbatim>\<open>binascii.Error\<close>, a \<^verbatim>\<open>ValueError\<close>), and the AES block permutation and
  its inverse, from a key and a 16-byte block to a 16-byte block.
\<close>

record crypto_lib =
  b64encode :: "bytes \<Rightarrow> bytes"
  b64decode :: "bytes \<Rightarrow> bytes option"
  block_encrypt :: "bytes \<Rightarrow> bytes \<Rightarrow> bytes"
  block_decrypt :: "bytes \<Rightarrow> bytes \<Rightarrow> bytes"

text \<open>What the model asks of the library where a result depends on it.\<close>

definition block_sized :: "crypto_lib \<Rightarrow> bool" where
  "block_sized L \<longleftrightarrow>
     (\<forall>k b. length b = 16 \<longrightarrow>
        length (block_encrypt L k b) = 16 \<and> length (block_decrypt L k b) = 16)"

definition lib_inverse :: "crypto_lib \<Rightarrow> bool" where
  "lib_inverse L \<longleftrightarrow>
     (\<forall>x. b64decode L (b64encode L x) = Some x) \<and>
     (\<forall>k b. length b = 16 \<longrightarrow> block_decrypt L k (block_encrypt L k b) = b)"

text \<open>
  \<^verbatim>\<open>AES.new(key, AES.MODE_CBC, iv)\<close> checks the key and IV lengths, and the cipher
  object's \<^verbatim>\<open>encrypt\<close> and \<^verbatim>\<open>decrypt\<close> want a multiple of 16 bytes; each
  check raises \<^verbatim>\<open>ValueError\<close>. Cipher block chaining is written out over the block
  permutation.
\<close>

definition xor_bytes :: "bytes \<Rightarrow> bytes \<Rightarrow> bytes" where
  "xor_bytes a b = map2 (XOR) a b"

function cbc_encrypt :: "(bytes \<Rightarrow> bytes) \<Rightarrow> bytes \<Rightarrow> bytes \<Rightarrow> bytes" where
  "cbc_encrypt E prev data =
     (if data = [] then []
      else (let c = E (xor_bytes (take 16 data) prev) in c @ cbc_encrypt E c (drop 16 data)))"
  by pat_completeness auto
termination
  by (relation "measure (\<lambda>(E, prev, data). length data)") auto

function cbc_decrypt :: "(bytes \<Rightarrow> bytes) \<Rightarrow> bytes \<Rightarrow> bytes \<Rightarrow> bytes" where
  "cbc_decrypt D prev data =
     (if data = [] then []
      else (let c = take 16 data in xor_bytes (D c) prev @ cbc_decrypt D c (drop 16 data)))"
  by pat_completeness auto
termination
  by (relation "measure (\<lambda>(D, prev, data). length data)") auto

declare cbc_encrypt.simps [simp del]
declare cbc_decrypt.simps [simp del]

record aes_cbc =
  aes_key :: bytes
  aes_iv :: bytes

definition AES_new :: "bytes \<Rightarrow> bytes \<Rightarrow> py_exc + aes_cbc" where
  "AES_new key iv =
     (if length key \<noteq> 16 \<and> length key \<noteq> 24 \<and> length key \<noteq> 32 then Inl ValueError
      else if length iv \<noteq> 16 then Inl ValueError
      else Inr \<lparr>aes_key = key, aes_iv = iv\<rparr>)"

definition AES_encrypt :: "crypto_lib \<Rightarrow> aes_cbc \<Rightarrow> bytes \<Rightarrow> py_exc + bytes" where
  "AES_encrypt L cipher data =
     (if length data mod 16 \<noteq> 0 then Inl ValueError
      else Inr (cbc_encrypt (block_encrypt L (aes_key cipher)) (aes_iv cipher) data))"

definition AES_decrypt :: "crypto_lib \<Rightarrow> aes_cbc \<Rightarrow> bytes \<Rightarrow> py_exc + bytes" where
  "AES_decrypt L cipher data =
     (if length data mod 16 \<noteq> 0 then Inl ValueError
      else Inr (cbc_decrypt (block_decrypt L (aes_key cipher)) (aes_iv cipher) data))"

subsection \<open>class AESCipher\<close>

record AESCipher =
  m_bs :: nat
  m_pad :: "bytes list"
  m_key :: bytes

text \<open>
  The pad table of \<^verbatim>\<open>__init__\<close>: entry \<open>i\<close> is \<open>i\<close> characters of code \<open>i\<close>, for
  \<open>i\<close> from 0 to \<open>m_bs\<close>; then entry 0 is overwritten with \<open>b * m_bs\<close> where \<open>b\<close> is
  already \<open>m_bs\<close> characters of code \<open>m_bs\<close>. The characters are below 128, so
  \<^verbatim>\<open>bytes(ps, 'utf-8')\<close> in \<^verbatim>\<open>_pad\<close> is one byte for each.
\<close>

definition pad_table :: "nat \<Rightarrow> bytes list" where
  "pad_table bs =
     (let tab = map (\<lambda>i. replicate i (of_nat i)) [0..<bs + 1];
          b = replicate bs (of_nat bs)
      in tab[0 := concat (replicate bs b)])"

definition AESCipher_pad :: "AESCipher \<Rightarrow> bytes \<Rightarrow> py_exc + bytes" where
  "AESCipher_pad self s =
     (let b = length s mod m_bs self;
          p = m_bs self - b
      in case py_index (m_pad self) p of
           Inl e \<Rightarrow> Inl e
         | Inr ps \<Rightarrow> Inr (s @ ps))"

definition AESCipher_unpad :: "AESCipher \<Rightarrow> bytes \<Rightarrow> py_exc + bytes" where
  "AESCipher_unpad self s =
     (if s = [] then Inl IndexError
      else (let u = unat (last s) in Inr (slice_to_minus s u)))"

text \<open>
  \<^verbatim>\<open>__init__\<close>: \<open>m_key\<close> is not set while \<^verbatim>\<open>_pad\<close> runs on the short key; the
  record holds the empty key until then.
\<close>

definition AESCipher_init :: "bytes \<Rightarrow> py_exc + AESCipher" where
  "AESCipher_init key =
     (let self = \<lparr>m_bs = 32, m_pad = pad_table 32, m_key = []\<rparr>
      in if length key \<ge> m_bs self then Inr (self\<lparr>m_key := take (m_bs self) key\<rparr>)
         else (case AESCipher_pad self key of
                 Inl e \<Rightarrow> Inl e
               | Inr k \<Rightarrow> Inr (self\<lparr>m_key := k\<rparr>)))"

text \<open>
  \<^verbatim>\<open>encrypt\<close>: \<open>iv\<close> is what \<^verbatim>\<open>Random.new().read(AES.block_size)\<close> returned.
\<close>

definition AESCipher_encrypt :: "crypto_lib \<Rightarrow> AESCipher \<Rightarrow> bytes \<Rightarrow> bytes \<Rightarrow> py_exc + bytes" where
  "AESCipher_encrypt L self iv raw =
     (case AESCipher_pad self raw of
        Inl e \<Rightarrow> Inl e
      | Inr raw' \<Rightarrow>
          (case AES_new (m_key self) iv of
             Inl e \<Rightarrow> Inl e
           | Inr cipher \<Rightarrow>
               (case AES_encrypt L cipher raw' of
                  Inl e \<Rightarrow> Inl e
                | Inr ct \<Rightarrow> Inr (b64encode L (iv @ ct)))))"

definition AESCipher_decrypt :: "crypto_lib \<Rightarrow> AESCipher \<Rightarrow> bytes \<Rightarrow> py_exc + bytes" where
  "AESCipher_decrypt L self enc =
     (case b64decode L enc of
        None \<Rightarrow> Inl ValueError
      | Some enc' \<Rightarrow>
          (let iv = take 16 enc' in
           case AES_new (m_key self) iv of
             Inl e \<Rightarrow> Inl e
           | Inr cipher \<Rightarrow>
               (case AES_decrypt L cipher (drop 16 enc') of
                  Inl e \<Rightarrow> Inl e
                | Inr pt \<Rightarrow> AESCipher_unpad self pt)))"

text \<open>The pad rule in the specification's words: \<open>p\<close> repetitions of byte value \<open>p\<close>.\<close>

definition spec_pad32 :: "bytes \<Rightarrow> bytes" where
  "spec_pad32 s = (let p = 32 - length s mod 32 in s @ replicate p (of_nat p))"

section \<open>lock\_files.py: files\<close>

subsection \<open>Options, statistics, messages\<close>

type_synonym path = string

text \<open>The fields of \<^verbatim>\<open>opts\<close> that the file functions read.\<close>

record opts =
  cont :: bool
  overwrite :: bool
  lock :: bool
  unlock :: bool
  no_recurse :: bool
  suffix :: string
  verbose :: nat
  FILES :: "path list"

text \<open>The dictionary \<^verbatim>\<open>stats\<close>, one field for each key.\<close>

record stats =
  locked :: nat
  unlocked :: nat
  skipped :: nat
  files :: nat
  dirs :: nat
  read :: nat
  written :: nat

datatype level = INFO | WARNING | ERROR

text \<open>
  The texts handed to the message functions, by format string; the text of the caught
  exception and the caller's line number are left out.
\<close>

datatype message =
    LockInfo path path
  | UnlockInfo path path
  | SkipInfo path
  | FileExists path
  | ReadFailed path
  | WriteFailed path
  | LockFailed path
  | UnlockFailed path

text \<open>
  What the program does to the outside, in order: a line on standard output, a file
  written whole and closed, a file removed, the summary.
\<close>

datatype event =
    Msg level message
  | Wrote path bytes
  | Removed path
  | Summary "(string \<times> nat) list"

subsection \<open>The operating system\<close>

text \<open>
  How a write on a path goes: \<^verbatim>\<open>open(path, 'wb')\<close> raises, or the file is
  truncated and \<^verbatim>\<open>write\<close> raises after so many bytes, or neither.
\<close>

datatype write_fault = NoFault | OpenFails | WriteFails nat

text \<open>
  The environment: the libraries, the bytes of \<^verbatim>\<open>Crypto.Random\<close> (by read and by
  position), which files cannot be opened for reading, how writing goes, which paths
  are directories, and the functions of \<^verbatim>\<open>os\<close> and the builtin
  \<^verbatim>\<open>sorted(..., key=str.lower)\<close> over the files as they are at the call.
\<close>

record os_env =
  lib :: crypto_lib
  random_byte :: "nat \<Rightarrow> nat \<Rightarrow> byte"
  read_denied :: "path \<Rightarrow> bool"
  write_fault :: "path \<Rightarrow> write_fault"
  is_dir :: "path \<Rightarrow> bool"
  os_walk :: "(path \<rightharpoonup> bytes) \<Rightarrow> path \<Rightarrow> (path \<times> string list \<times> string list) list"
  os_listdir :: "(path \<rightharpoonup> bytes) \<Rightarrow> path \<Rightarrow> string list"
  os_path_join :: "path \<Rightarrow> string \<Rightarrow> path"
  sorted_lower :: "string list \<Rightarrow> string list"

text \<open>
  The state: the regular files and their contents, the events so far, the statistics,
  and how many times the random source has been read.
\<close>

record world =
  fs :: "path \<rightharpoonup> bytes"
  trace :: "event list"
  stats :: stats
  rand_reads :: nat

text \<open>
  A function with effects takes the world and returns the new one with its result;
  \<open>Inl\<close> is a raised exception, with the world as it was when it was raised.
\<close>

type_synonym 'a result = "(py_exc + 'a) \<times> world"

definition Random_read :: "os_env \<Rightarrow> nat \<Rightarrow> world \<Rightarrow> bytes \<times> world" where
  "Random_read env n w =
     (map (random_byte env (rand_reads w)) [0..<n], w\<lparr>rand_reads := rand_reads w + 1\<rparr>)"

definition os_path_exists :: "os_env \<Rightarrow> world \<Rightarrow> path \<Rightarrow> bool" where
  "os_path_exists env w p \<longleftrightarrow> fs w p \<noteq> None \<or> is_dir env p"

definition os_path_isfile :: "world \<Rightarrow> path \<Rightarrow> bool" where
  "os_path_isfile w p \<longleftrightarrow> fs w p \<noteq> None"

text \<open>
  \<^verbatim>\<open>os.remove\<close> is only called on a file that was read in the same call; its
  failure is not modelled.
\<close>

definition os_remove :: "path \<Rightarrow> world \<Rightarrow> world" where
  "os_remove p w = w\<lparr>fs := (fs w)(p := None), trace := trace w @ [Removed p]\<rparr>"

definition endswith :: "string \<Rightarrow> string \<Rightarrow> bool" where
  "endswith s suf \<longleftrightarrow>
     length suf \<le> length s \<and> drop (length s - length suf) s = suf"

definition startswith :: "string \<Rightarrow> string \<Rightarrow> bool" where
  "startswith s pre \<longleftrightarrow> take (length pre) s = pre"

subsection \<open>Message functions\<close>

definition msg :: "level \<Rightarrow> message \<Rightarrow> world \<Rightarrow> world" where
  "msg prefix m w = w\<lparr>trace := trace w @ [Msg prefix m]\<rparr>"

definition infov2 :: "opts \<Rightarrow> message \<Rightarrow> world \<Rightarrow> world" where
  "infov2 opts m w = (if verbose opts > 1 then msg INFO m w else w)"

definition err :: "message \<Rightarrow> world \<Rightarrow> unit result" where
  "err m w = (Inl (SystemExit 1), msg ERROR m w)"

definition warn :: "message \<Rightarrow> world \<Rightarrow> unit result" where
  "warn m w = (Inr (), msg WARNING m w)"

definition get_cont_fct :: "opts \<Rightarrow> message \<Rightarrow> world \<Rightarrow> unit result" where
  "get_cont_fct opts = (if cont opts then warn else err)"

subsection \<open>Program specific functions\<close>

definition check_existence :: "os_env \<Rightarrow> opts \<Rightarrow> path \<Rightarrow> world \<Rightarrow> unit result" where
  "check_existence env opts p w =
     (if \<not> overwrite opts \<and> os_path_exists env w p
      then get_cont_fct opts (FileExists p) w
      else (Inr (), w))"

text \<open>\<^verbatim>\<open>read_file\<close> returns the data, or \<^verbatim>\<open>None\<close> after the message function returned.\<close>

definition read_file :: "os_env \<Rightarrow> opts \<Rightarrow> path \<Rightarrow> world \<Rightarrow> bytes option result" where
  "read_file env opts p w =
     (case (if read_denied env p then None else fs w p) of
        Some data \<Rightarrow>
          (Inr (Some data), w\<lparr>stats := (stats w)\<lparr>read := read (stats w) + length data\<rparr>\<rparr>)
      | None \<Rightarrow>
          (case get_cont_fct opts (ReadFailed p) w of
             (Inl e, w') \<Rightarrow> (Inl e, w')
           | (Inr _, w') \<Rightarrow> (Inr None, w')))"

definition write_file :: "os_env \<Rightarrow> opts \<Rightarrow> path \<Rightarrow> bytes \<Rightarrow> world \<Rightarrow> bool result" where
  "write_file env opts p content w =
     (case write_fault env p of
        NoFault \<Rightarrow>
          (Inr True,
           w\<lparr>fs := (fs w)(p \<mapsto> content),
             trace := trace w @ [Wrote p content],
             stats := (stats w)\<lparr>written := written (stats w) + length content\<rparr>\<rparr>)
      | OpenFails \<Rightarrow>
          (case get_cont_fct opts (WriteFailed p) w of
             (Inl e, w') \<Rightarrow> (Inl e, w')
           | (Inr _, w') \<Rightarrow> (Inr False, w'))
      | WriteFails n \<Rightarrow>
          (case get_cont_fct opts (WriteFailed p) (w\<lparr>fs := (fs w)(p \<mapsto> take n content)\<rparr>) of
             (Inl e, w') \<Rightarrow> (Inl e, w')
           | (Inr _, w') \<Rightarrow> (Inr False, w')))"

text \<open>
  The \<^verbatim>\<open>try\<close> block of \<^verbatim>\<open>lock_file\<close>; \<open>out\<close> is the destination. The random
  source is read inside \<^verbatim>\<open>encrypt\<close>, after the padding; here the read is taken just
  before the call, which is the same as long as the padding returns.
\<close>

definition lock_try :: "os_env \<Rightarrow> opts \<Rightarrow> bytes \<Rightarrow> path \<Rightarrow> path \<Rightarrow> bytes \<Rightarrow> world \<Rightarrow> unit result" where
  "lock_try env opts password p out content w =
     (case AESCipher_init password of
        Inl e \<Rightarrow> (Inl e, w)
      | Inr aes \<Rightarrow>
          (let (iv, w1) = Random_read env 16 w in
           case AESCipher_encrypt (lib env) aes iv content of
             Inl e \<Rightarrow> (Inl e, w1)
           | Inr data \<Rightarrow>
               (case write_file env opts out data w1 of
                  (Inl e, w2) \<Rightarrow> (Inl e, w2)
                | (Inr ok, w2) \<Rightarrow>
                    if ok then
                      (let w3 = (if out \<noteq> p then os_remove p w2 else w2)
                       in (Inr (), w3\<lparr>stats := (stats w3)\<lparr>locked := locked (stats w3) + 1\<rparr>\<rparr>))
                    else (Inr (), w2))))"

definition lock_file :: "os_env \<Rightarrow> opts \<Rightarrow> bytes \<Rightarrow> path \<Rightarrow> world \<Rightarrow> unit result" where
  "lock_file env opts password p w =
     (let out = p @ suffix opts;
          w1 = infov2 opts (LockInfo p out) w
      in case check_existence env opts out w1 of
           (Inl e, w2) \<Rightarrow> (Inl e, w2)
         | (Inr _, w2) \<Rightarrow>
             (case read_file env opts p w2 of
                (Inl e, w3) \<Rightarrow> (Inl e, w3)
              | (Inr None, w3) \<Rightarrow> (Inr (), w3)
              | (Inr (Some content), w3) \<Rightarrow>
                  (case lock_try env opts password p out content w3 of
                     (Inl ValueError, w4) \<Rightarrow> get_cont_fct opts (LockFailed p) w4
                   | r \<Rightarrow> r)))"

text \<open>The \<^verbatim>\<open>try\<close> block of \<^verbatim>\<open>unlock_file\<close>.\<close>

definition unlock_try :: "os_env \<Rightarrow> opts \<Rightarrow> bytes \<Rightarrow> path \<Rightarrow> path \<Rightarrow> bytes \<Rightarrow> world \<Rightarrow> unit result" where
  "unlock_try env opts password p out content w =
     (case AESCipher_init password of
        Inl e \<Rightarrow> (Inl e, w)
      | Inr aes \<Rightarrow>
          (case AESCipher_decrypt (lib env) aes content of
             Inl e \<Rightarrow> (Inl e, w)
           | Inr data \<Rightarrow>
               (case write_file env opts out data w of
                  (Inl e, w2) \<Rightarrow> (Inl e, w2)
                | (Inr ok, w2) \<Rightarrow>
                    if ok then
                      (let w3 = (if out \<noteq> p then os_remove p w2 else w2)
                       in (Inr (), w3\<lparr>stats := (stats w3)\<lparr>unlocked := unlocked (stats w3) + 1\<rparr>\<rparr>))
                    else (Inr (), w2))))"

definition unlock_file :: "os_env \<Rightarrow> opts \<Rightarrow> bytes \<Rightarrow> path \<Rightarrow> world \<Rightarrow> unit result" where
  "unlock_file env opts password p w =
     (if endswith p (suffix opts) then
        (let out = (if length (suffix opts) > 0
                    then slice_to_minus p (length (suffix opts)) else p);
             w1 = infov2 opts (UnlockInfo p out) w
         in case check_existence env opts out w1 of
              (Inl e, w2) \<Rightarrow> (Inl e, w2)
            | (Inr _, w2) \<Rightarrow>
                (case read_file env opts p w2 of
                   (Inl e, w3) \<Rightarrow> (Inl e, w3)
                 | (Inr None, w3) \<Rightarrow> (Inr (), w3)
                 | (Inr (Some content), w3) \<Rightarrow>
                     (case unlock_try env opts password p out content w3 of
                        (Inl ValueError, w4) \<Rightarrow> get_cont_fct opts (UnlockFailed p) w4
                      | r \<Rightarrow> r)))
      else
        (let w1 = infov2 opts (SkipInfo p) w
         in (Inr (), w1\<lparr>stats := (stats w1)\<lparr>skipped := skipped (stats w1) + 1\<rparr>\<rparr>)))"

definition process_file :: "os_env \<Rightarrow> opts \<Rightarrow> bytes \<Rightarrow> path \<Rightarrow> world \<Rightarrow> unit result" where
  "process_file env opts password p w =
     (let w1 = w\<lparr>stats := (stats w)\<lparr>files := files (stats w) + 1\<rparr>\<rparr>
      in if lock opts then lock_file env opts password p w1
         else unlock_file env opts password p w1)"

text \<open>A \<^verbatim>\<open>for\<close> loop whose body can raise: the first exception ends it.\<close>

fun for_each :: "('a \<Rightarrow> world \<Rightarrow> unit result) \<Rightarrow> 'a list \<Rightarrow> world \<Rightarrow> unit result" where
  "for_each body [] w = (Inr (), w)"
| "for_each body (x # xs) w =
     (case body x w of
        (Inl e, w') \<Rightarrow> (Inl e, w')
      | (Inr _, w') \<Rightarrow> for_each body xs w')"

text \<open>
  \<^verbatim>\<open>process_dir\<close>. The sequence of \<^verbatim>\<open>os.walk\<close> is taken when the loop starts;
  \<^verbatim>\<open>os.path.isfile\<close> in the other branch is asked when its entry is reached.
\<close>

definition process_dir :: "os_env \<Rightarrow> opts \<Rightarrow> bytes \<Rightarrow> path \<Rightarrow> world \<Rightarrow> unit result" where
  "process_dir env opts password p w =
     (let w1 = w\<lparr>stats := (stats w)\<lparr>dirs := dirs (stats w) + 1\<rparr>\<rparr>
      in if \<not> no_recurse opts then
           for_each
             (\<lambda>(root, subdirs, subfiles).
                for_each
                  (\<lambda>subfile wa.
                     if startswith subfile ''.'' then (Inr (), wa)
                     else process_file env opts password (os_path_join env root subfile) wa)
                  (sorted_lower env subfiles))
             (os_walk env (fs w1) p) w1
         else
           for_each
             (\<lambda>entry wa.
                if startswith entry ''.'' then (Inr (), wa)
                else (let subpath = os_path_join env p entry
                      in if os_path_isfile wa subpath
                         then process_file env opts password subpath wa
                         else (Inr (), wa)))
             (sorted_lower env (os_listdir env (fs w1) p)) w1)"

definition process :: "os_env \<Rightarrow> opts \<Rightarrow> bytes \<Rightarrow> path \<Rightarrow> world \<Rightarrow> unit result" where
  "process env opts password entry w =
     (if os_path_isfile w entry then process_file env opts password entry w
      else if is_dir env entry then process_dir env opts password entry w
      else (Inr (), w))"

definition summary :: "opts \<Rightarrow> stats \<Rightarrow> (string \<times> nat) list" where
  "summary opts st =
     [(''total files'', files st)] @
     (if lock opts then [(''total locked'', locked st)] else []) @
     (if unlock opts then [(''total unlocked'', unlocked st)] else []) @
     [(''total skipped'', skipped st),
      (''total bytes read'', read st),
      (''total bytes written'', written st)]"

definition run :: "os_env \<Rightarrow> opts \<Rightarrow> bytes \<Rightarrow> world \<Rightarrow> unit result" where
  "run env opts password w =
     (let w0 = w\<lparr>stats := \<lparr>locked = 0, unlocked = 0, skipped = 0, files = 0, dirs = 0,
                             read = 0, written = 0\<rparr>\<rparr>
      in case for_each (process env opts password) (FILES opts) w0 of
           (Inl e, w') \<Rightarrow> (Inl e, w')
         | (Inr _, w') \<Rightarrow>
             (Inr (),
              if verbose opts > 0
              then w'\<lparr>trace := trace w' @ [Summary (summary opts (stats w'))]\<rparr>
              else w'))"

section \<open>A small environment to run the model\<close>

text \<open>
  An instance of the libraries that satisfies what the model asks of them, to evaluate
  the functions on concrete inputs. It is not AES and not base64: the block permutation
  is XOR with the first byte of the key, and the encoding is the identity.
\<close>

definition key_tag :: "bytes \<Rightarrow> byte" where
  "key_tag k = (case k of [] \<Rightarrow> 0 | x # _ \<Rightarrow> x)"

definition demo_lib :: crypto_lib where
  "demo_lib =
     \<lparr>b64encode = (\<lambda>x. x),
      b64decode = (\<lambda>x. Some x),
      block_encrypt = (\<lambda>k b. map (\<lambda>x. x XOR key_tag k) b),
      block_decrypt = (\<lambda>k b. map (\<lambda>x. x XOR key_tag k) b)\<rparr>"

text \<open>The object that \<^verbatim>\<open>__init__\<close> leaves when the normalised key is \<open>k\<close>.\<close>

definition cipher_with_key :: "bytes \<Rightarrow> AESCipher" where
  "cipher_with_key k = \<lparr>m_bs = 32, m_pad = pad_table 32, m_key = k\<rparr>"

text \<open>No faults, no directories, random bytes all zero.\<close>

definition demo_env :: os_env where
  "demo_env =
     \<lparr>lib = demo_lib,
      random_byte = (\<lambda>_ _. 0),
      read_denied = (\<lambda>_. False),
      write_fault = (\<lambda>_. NoFault),
      is_dir = (\<lambda>_. False),
      os_walk = (\<lambda>_ _. []),
      os_listdir = (\<lambda>_ _. []),
      os_path_join = (\<lambda>a b. a @ ''/'' @ b),
      sorted_lower = (\<lambda>xs. xs)\<rparr>"

definition demo_opts :: opts where
  "demo_opts =
     \<lparr>cont = False, overwrite = False, lock = True, unlock = False, no_recurse = False,
      suffix = ''.locked'', verbose = 0, FILES = []\<rparr>"

definition demo_world :: "(path \<rightharpoonup> bytes) \<Rightarrow> world" where
  "demo_world f =
     \<lparr>fs = f, trace = [],
      stats = \<lparr>locked = 0, unlocked = 0, skipped = 0, files = 0, dirs = 0, read = 0,
                written = 0\<rparr>,
      rand_reads = 0\<rparr>"

text \<open>
  The blob that \<^verbatim>\<open>encrypt\<close> returns in this environment for the plaintext
  \<open>[104, 105]\<close> under the password \<open>[30]\<close> and a zero IV.
\<close>

definition demo_blob :: bytes where
  "demo_blob = [0,0,0,0,0,0,0,0,0,0,0,0,0,0,0,0,
                118,119,0,0,0,0,0,0,0,0,0,0,0,0,0,0,
                118,119,0,0,0,0,0,0,0,0,0,0,0,0,0,0]"

section \<open>Properties of the cipher layer\<close>


lemma length_pad_table: "length (pad_table bs) = bs + 1"
  by (simp add: pad_table_def Let_def)

lemma pad_table_nth: "0 < p \<Longrightarrow> p \<le> bs \<Longrightarrow> pad_table bs ! p = replicate p (of_nat p)"
  by (simp add: pad_table_def Let_def del: upt_Suc)

lemma pad_with_table:
  assumes "m_bs self = 32" "m_pad self = pad_table 32"
  shows "AESCipher_pad self s = Inr (spec_pad32 s)"
proof -
  let ?p = "32 - length s mod 32"
  have "0 < ?p" "?p \<le> 32" by simp_all
  then have "py_index (pad_table 32) ?p = Inr (replicate ?p (of_nat ?p))"
    by (simp add: py_index_def length_pad_table pad_table_nth)
  then show ?thesis
    using assms by (simp add: AESCipher_pad_def spec_pad32_def Let_def)
qed

lemma init_eq:
  "AESCipher_init key =
     Inr \<lparr>m_bs = 32, m_pad = pad_table 32,
          m_key = (if 32 \<le> length key then take 32 key else spec_pad32 key)\<rparr>"
  by (simp add: AESCipher_init_def Let_def pad_with_table)

lemma pad_length_mod: "((n::nat) + (32 - n mod 32)) mod 32 = 0"
proof -
  have "n mod 32 < 32" by simp
  then have "n + (32 - n mod 32) = (n - n mod 32) + 32"
    using mod_less_eq_dividend [of n 32] by linarith
  also have "\<dots> = 32 * (n div 32) + 32" by (simp only: minus_mod_eq_mult_div)
  finally show ?thesis by simp
qed

lemma length_spec_pad32: "length (spec_pad32 s) mod 32 = 0"
  using pad_length_mod [of "length s"] by (simp add: spec_pad32_def Let_def)

lemma length_spec_pad32_short: "length s < 32 \<Longrightarrow> length (spec_pad32 s) = 32"
  by (simp add: spec_pad32_def Let_def)

lemma unat_byte: "n < 256 \<Longrightarrow> unat (of_nat n :: byte) = n"
  by (simp add: unat_of_nat)

lemma slice_to_minus_append: "t \<noteq> [] \<Longrightarrow> slice_to_minus (s @ t) (length t) = s"
  by (simp add: slice_to_minus_def)

lemma unpad_pad: "AESCipher_unpad self (spec_pad32 s) = Inr s"
proof -
  let ?p = "32 - length s mod 32"
  let ?t = "replicate ?p (of_nat ?p :: byte)"
  have p: "0 < ?p" "?p \<le> 32" by simp_all
  have u: "unat (of_nat ?p :: byte) = ?p"
    by (rule unat_byte) simp
  have t: "?t \<noteq> []" "length ?t = ?p" "last ?t = of_nat ?p" using p by simp_all
  have "AESCipher_unpad self (s @ ?t) = Inr (slice_to_minus (s @ ?t) (length ?t))"
    unfolding AESCipher_unpad_def Let_def using t u by (simp del: replicate_eq_replicate last_replicate of_nat_diff)
  also have "\<dots> = Inr s" using slice_to_minus_append [OF t(1)] by (rule arg_cong)
  finally show ?thesis by (simp add: spec_pad32_def Let_def)
qed

lemma xor_bytes_cancel: "length a = length p \<Longrightarrow> xor_bytes (xor_bytes a p) p = a"
proof (induction a arbitrary: p)
  case Nil then show ?case by (simp add: xor_bytes_def)
next
  case (Cons x xs)
  then obtain y ys where "p = y # ys" by (cases p) auto
  with Cons show ?case by (simp add: xor_bytes_def xor.assoc)
qed

lemma length_xor_bytes: "length (xor_bytes a b) = min (length a) (length b)"
  by (simp add: xor_bytes_def)

lemma cbc_decrypt_append:
  "length c = 16 \<Longrightarrow>
   cbc_decrypt D prev (c @ rest) = xor_bytes (D c) prev @ cbc_decrypt D c rest"
  by (subst cbc_decrypt.simps) (auto simp: Let_def)

lemma cbc_roundtrip:
  assumes inv: "\<And>b. length b = 16 \<Longrightarrow> D (E b) = b"
    and sz: "\<And>b. length b = 16 \<Longrightarrow> length (E b) = 16"
  shows "length prev = 16 \<Longrightarrow> length data mod 16 = 0 \<Longrightarrow>
         cbc_decrypt D prev (cbc_encrypt E prev data) = data"
proof (induction "length data" arbitrary: prev data rule: less_induct)
  case less
  show ?case
  proof (cases "data = []")
    case True
    then show ?thesis by (simp add: cbc_encrypt.simps cbc_decrypt.simps)
  next
    case False
    with less.prems have len: "16 \<le> length data" by (cases "length data < 16") auto
    let ?b = "xor_bytes (take 16 data) prev"
    let ?c = "E ?b"
    have lb: "length ?b = 16" using len less.prems by (simp add: length_xor_bytes)
    have lc: "length ?c = 16" using lb by (rule sz)
    have "(length data - 16) mod 16 = 0"
      using less.prems(2) len by presburger
    then have rest: "length (drop 16 data) mod 16 = 0" by simp
    have shorter: "length (drop 16 data) < length data" using len by simp
    have IH: "cbc_decrypt D ?c (cbc_encrypt E ?c (drop 16 data)) = drop 16 data"
      using less.hyps [OF shorter lc rest] .
    have enc: "cbc_encrypt E prev data = ?c @ cbc_encrypt E ?c (drop 16 data)"
      using False by (subst cbc_encrypt.simps) (simp add: Let_def)
    have "cbc_decrypt D prev (?c @ cbc_encrypt E ?c (drop 16 data))
            = xor_bytes (D ?c) prev @ cbc_decrypt D ?c (cbc_encrypt E ?c (drop 16 data))"
      using lc by (rule cbc_decrypt_append)
    also have "\<dots> = xor_bytes ?b prev @ drop 16 data"
      using IH inv [OF lb] by simp
    also have "\<dots> = take 16 data @ drop 16 data"
      using len less.prems by (simp add: xor_bytes_cancel)
    finally show ?thesis using enc by simp
  qed
qed


lemma init_cipher: "AESCipher_init key = Inr (cipher_with_key (if 32 \<le> length key then take 32 key else spec_pad32 key))"
  by (simp add: init_eq cipher_with_key_def)

lemma pad_cipher: "AESCipher_pad (cipher_with_key k) s = Inr (spec_pad32 s)"
  by (rule pad_with_table) (simp_all add: cipher_with_key_def)

lemma m_key_cipher: "m_key (cipher_with_key k) = k"
  by (simp add: cipher_with_key_def)

lemma length_normalised:
  "length (if 32 \<le> length key then take 32 key else spec_pad32 key) = 32"
  by (simp add: length_spec_pad32_short)

lemma key_tag_Cons: "key_tag (x # xs) = x"
  by (simp add: key_tag_def)

lemma key_tag_replicate: "0 < n \<Longrightarrow> key_tag (replicate n x) = x"
  by (cases n) (simp_all add: key_tag_def)

lemma demo_lib_sized: "block_sized demo_lib"
  by (simp add: block_sized_def demo_lib_def)

lemma demo_lib_inverse: "lib_inverse demo_lib"
  by (simp add: lib_inverse_def demo_lib_def comp_def xor.assoc)

text \<open>
  Claim C9. For every plaintext \<open>s\<close>, \<^verbatim>\<open>_pad\<close> of an initialised cipher appends
  \<open>p\<close> bytes of value \<open>p\<close>, where \<open>p = 32 - (length s mod 32)\<close>: the table lookup
  of the code is the pad rule of the specification. At length 32 it appends 32 bytes of
  value 32, at length 31 one byte of value 1, at length 0 it returns 32 bytes of value 32.
\<close>
theorem pad_appends_count_bytes:
  "\<exists>self. AESCipher_init key = Inr self \<and>
     AESCipher_pad self s = Inr (spec_pad32 s) \<and>
     AESCipher_pad self s =
       Inr (s @ replicate (32 - length s mod 32) (of_nat (32 - length s mod 32))) \<and>
     (length s = 32 \<longrightarrow> AESCipher_pad self s = Inr (s @ replicate 32 32)) \<and>
     (length s = 31 \<longrightarrow> AESCipher_pad self s = Inr (s @ [1])) \<and>
     (length s = 0 \<longrightarrow> AESCipher_pad self s = Inr (replicate 32 32))"
  by (simp add: init_cipher pad_cipher spec_pad32_def Let_def)

theorem pad_appends_count_bytes_witness:
  "(\<exists>self. AESCipher_init [] = Inr self \<and>
      AESCipher_pad self (replicate 32 7) = Inr (replicate 32 7 @ replicate 32 32)) \<and>
   (\<exists>self. AESCipher_init [] = Inr self \<and>
      AESCipher_pad self (replicate 31 7) = Inr (replicate 31 7 @ [1])) \<and>
   (\<exists>self. AESCipher_init [] = Inr self \<and> AESCipher_pad self [] = Inr (replicate 32 32))"
  using pad_appends_count_bytes [of "[]" "replicate 32 7"]
    pad_appends_count_bytes [of "[]" "replicate 31 7"]
    pad_appends_count_bytes [of "[]" "[]"]
  by auto

text \<open>
  Claim C8. For every password, \<^verbatim>\<open>__init__\<close> succeeds and leaves a key of exactly
  32 bytes: the first 32 bytes of a password of 32 bytes or more, and otherwise the
  password extended by the pad rule (of which the first 32 bytes are all of it).
\<close>
theorem init_key_32_bytes:
  "\<exists>self. AESCipher_init password = Inr self \<and>
     length (m_key self) = 32 \<and>
     (32 \<le> length password \<longrightarrow> m_key self = take 32 password) \<and>
     (length password < 32 \<longrightarrow> m_key self = take 32 (spec_pad32 password))"
  by (simp add: init_cipher m_key_cipher length_spec_pad32_short)

theorem init_key_32_bytes_witness:
  "(\<exists>self. AESCipher_init [7] = Inr self \<and> m_key self = 7 # replicate 31 31) \<and>
   (\<exists>self. AESCipher_init (replicate 1000 9) = Inr self \<and> m_key self = replicate 32 9)"
  using init_key_32_bytes [of "[7]"] init_key_32_bytes [of "replicate 1000 9"]
  by (auto simp: spec_pad32_def)

text \<open>
  Claim C7, as stated: for every non-empty \<open>s\<close> with last byte \<open>u\<close>, \<^verbatim>\<open>_unpad\<close>
  returns \<open>s\<close> without exactly its last \<open>u\<close> bytes. It fails at \<open>u = 0\<close>, where
  \<^verbatim>\<open>s[:-0]\<close> is empty and not \<open>s\<close>, and at \<open>u\<close> greater than the length, where
  fewer than \<open>u\<close> bytes can be stripped.
\<close>
theorem unpad_zero_byte_counterexample:
  "unat (last [65, 0 :: byte]) = 0 \<and>
   AESCipher_unpad (cipher_with_key (replicate 32 32)) [65, 0] = Inr [] \<and>
   AESCipher_unpad (cipher_with_key (replicate 32 32)) [65, 0] \<noteq> Inr [65, 0] \<and>
   unat (last [65, 66, 200 :: byte]) = 200 \<and>
   AESCipher_unpad (cipher_with_key (replicate 32 32)) [65, 66, 200] = Inr []"
  by (simp add: AESCipher_unpad_def slice_to_minus_def)

text \<open>
  Claim C7, amended. For a non-empty \<open>s\<close> with last byte \<open>u\<close>, \<^verbatim>\<open>_unpad\<close>
  returns \<open>s\<close> without its last \<open>u\<close> bytes when \<open>1 \<le> u \<le> length s\<close>, and the
  empty sequence otherwise; the stripped bytes are not looked at.
\<close>

theorem unpad_strips_by_last_byte:
  "s \<noteq> [] \<Longrightarrow>
   AESCipher_unpad self s =
     Inr (if 1 \<le> unat (last s) \<and> unat (last s) \<le> length s
          then take (length s - unat (last s)) s else [])"
  by (simp add: AESCipher_unpad_def slice_to_minus_def Let_def)

theorem unpad_strips_by_last_byte_witness:
  "AESCipher_unpad (cipher_with_key []) [65, 66, 2] = Inr [65] \<and>
   AESCipher_unpad (cipher_with_key []) [65, 66, 67] = Inr []"
  using unpad_strips_by_last_byte [of "[65, 66, 2]" "cipher_with_key []"]
    unpad_strips_by_last_byte [of "[65, 66, 67]" "cipher_with_key []"]
  by simp

text \<open>
  Claim C10. Two passwords of 32 bytes or more that agree on their first 32 bytes give
  the same cipher object, so the same \<^verbatim>\<open>encrypt\<close> and \<^verbatim>\<open>decrypt\<close> on every
  input, and the same run of the program on every environment and world.
\<close>
lemma lock_try_key:
  "AESCipher_init p1 = AESCipher_init p2 \<Longrightarrow> lock_try env opts p1 = lock_try env opts p2"
  by (intro ext) (simp add: lock_try_def)

lemma unlock_try_key:
  "AESCipher_init p1 = AESCipher_init p2 \<Longrightarrow> unlock_try env opts p1 = unlock_try env opts p2"
  by (intro ext) (simp add: unlock_try_def)

lemma lock_file_key:
  assumes "AESCipher_init p1 = AESCipher_init p2"
  shows "lock_file env opts p1 = lock_file env opts p2"
  by (intro ext) (simp only: lock_file_def lock_try_key [OF assms])

lemma unlock_file_key:
  assumes "AESCipher_init p1 = AESCipher_init p2"
  shows "unlock_file env opts p1 = unlock_file env opts p2"
  by (intro ext) (simp only: unlock_file_def unlock_try_key [OF assms])

lemma process_file_key:
  assumes "AESCipher_init p1 = AESCipher_init p2"
  shows "process_file env opts p1 = process_file env opts p2"
  by (intro ext)
    (simp only: process_file_def lock_file_key [OF assms] unlock_file_key [OF assms])

lemma process_key:
  assumes "AESCipher_init p1 = AESCipher_init p2"
  shows "process env opts p1 = process env opts p2"
  by (intro ext) (simp only: process_def process_dir_def process_file_key [OF assms])

lemma run_key:
  assumes "AESCipher_init p1 = AESCipher_init p2"
  shows "run env opts p1 = run env opts p2"
  by (intro ext) (simp only: run_def process_key [OF assms])

theorem long_passwords_same_prefix:
  assumes "32 \<le> length p1" "32 \<le> length p2" "take 32 p1 = take 32 p2"
  shows "\<exists>c1 c2. AESCipher_init p1 = Inr c1 \<and> AESCipher_init p2 = Inr c2 \<and>
           m_key c1 = take 32 p1 \<and> m_key c2 = m_key c1 \<and>
           AESCipher_encrypt L c1 iv raw = AESCipher_encrypt L c2 iv raw \<and>
           AESCipher_decrypt L c1 blob = AESCipher_decrypt L c2 blob \<and>
           run env opts p1 w = run env opts p2 w"
proof -
  have "AESCipher_init p1 = AESCipher_init p2" using assms by (simp add: init_cipher)
  then have "run env opts p1 w = run env opts p2 w" by (rule fun_cong [OF run_key])
  then show ?thesis using assms by (simp add: init_cipher m_key_cipher)
qed

theorem long_passwords_same_prefix_witness:
  "\<exists>c1 c2. AESCipher_init (replicate 32 5 @ [1, 2, 3]) = Inr c1 \<and>
      AESCipher_init (replicate 32 5 @ [9]) = Inr c2 \<and>
      m_key c1 = replicate 32 5 \<and> m_key c2 = m_key c1 \<and>
      AESCipher_encrypt demo_lib c1 (replicate 16 0) [104, 105] =
        AESCipher_encrypt demo_lib c2 (replicate 16 0) [104, 105] \<and>
      AESCipher_decrypt demo_lib c1 [] = AESCipher_decrypt demo_lib c2 [] \<and>
      run demo_env demo_opts (replicate 32 5 @ [1, 2, 3]) (demo_world Map.empty) =
        run demo_env demo_opts (replicate 32 5 @ [9]) (demo_world Map.empty)"
  using long_passwords_same_prefix [of "replicate 32 5 @ [1, 2, 3]" "replicate 32 5 @ [9]"
      demo_lib "replicate 16 0" "[104, 105]" "[]" demo_env demo_opts "demo_world Map.empty"]
  by simp

lemma encrypt_cipher:
  assumes "length k = 32" "length iv = 16"
  shows "AESCipher_encrypt L (cipher_with_key k) iv p =
     Inr (b64encode L (iv @ cbc_encrypt (block_encrypt L k) iv (spec_pad32 p)))"
proof -
  have "length (spec_pad32 p) mod 16 = 0"
    using length_spec_pad32 [of p] by presburger
  then show ?thesis using assms
    by (simp add: AESCipher_encrypt_def pad_cipher AES_new_def AES_encrypt_def m_key_cipher)
qed

lemma length_cbc_encrypt:
  assumes sz: "\<And>b. length b = 16 \<Longrightarrow> length (E b) = 16"
  shows "length prev = 16 \<Longrightarrow> length data mod 16 = 0 \<Longrightarrow>
         length (cbc_encrypt E prev data) = length data"
proof (induction "length data" arbitrary: prev data rule: less_induct)
  case less
  show ?case
  proof (cases "data = []")
    case True
    then show ?thesis by (simp add: cbc_encrypt.simps)
  next
    case False
    with less.prems have len: "16 \<le> length data" by (cases "length data < 16") auto
    have "(length data - 16) mod 16 = 0" using less.prems len by presburger
    then have rest: "length (drop 16 data) mod 16 = 0" by simp
    have shorter: "length (drop 16 data) < length data" using len by simp
    let ?b = "xor_bytes (take 16 data) prev"
    let ?c = "E ?b"
    have lb: "length ?b = 16" using len less.prems by (simp add: length_xor_bytes)
    have lc: "length ?c = 16" using lb by (rule sz)
    have "length (cbc_encrypt E ?c (drop 16 data)) = length (drop 16 data)"
      using less.hyps [OF shorter lc rest] .
    moreover have "cbc_encrypt E prev data = ?c @ cbc_encrypt E ?c (drop 16 data)"
      using False by (subst cbc_encrypt.simps) (simp add: Let_def)
    ultimately show ?thesis using lc len by simp
  qed
qed

lemma length_cbc_decrypt:
  assumes sz: "\<And>b. length b = 16 \<Longrightarrow> length (D b) = 16"
  shows "length prev = 16 \<Longrightarrow> length data mod 16 = 0 \<Longrightarrow>
         length (cbc_decrypt D prev data) = length data"
proof (induction "length data" arbitrary: prev data rule: less_induct)
  case less
  show ?case
  proof (cases "data = []")
    case True
    then show ?thesis by (simp add: cbc_decrypt.simps)
  next
    case False
    with less.prems have len: "16 \<le> length data" by (cases "length data < 16") auto
    have "(length data - 16) mod 16 = 0" using less.prems len by presburger
    then have rest: "length (drop 16 data) mod 16 = 0" by simp
    have shorter: "length (drop 16 data) < length data" using len by simp
    let ?c = "take 16 data"
    have lc: "length ?c = 16" using len by simp
    have "length (cbc_decrypt D ?c (drop 16 data)) = length (drop 16 data)"
      using less.hyps [OF shorter lc rest] .
    moreover have "length (xor_bytes (D ?c) prev) = 16"
      using sz [OF lc] less.prems by (simp add: length_xor_bytes)
    moreover have "cbc_decrypt D prev data =
        xor_bytes (D ?c) prev @ cbc_decrypt D ?c (drop 16 data)"
      using False by (subst cbc_decrypt.simps) (simp add: Let_def)
    ultimately show ?thesis using len by simp
  qed
qed

text \<open>
  Claim C3. For every byte sequence \<open>p\<close>, every 32-byte key \<open>k\<close> and every 16-byte IV
  drawn by \<^verbatim>\<open>encrypt\<close>, with a library whose decoding and block decryption invert
  its encoding and block encryption, \<^verbatim>\<open>encrypt\<close> returns a blob and
  \<^verbatim>\<open>decrypt\<close> of that blob returns \<open>p\<close>.
\<close>

theorem decrypt_encrypt_roundtrip:
  assumes "lib_inverse L" "block_sized L" "length k = 32" "length iv = 16"
  shows "\<exists>self blob. AESCipher_init k = Inr self \<and> m_key self = k \<and>
           AESCipher_encrypt L self iv p = Inr blob \<and>
           AESCipher_decrypt L self blob = Inr p"
proof -
  let ?E = "block_encrypt L k" and ?D = "block_decrypt L k"
  let ?ct = "cbc_encrypt ?E iv (spec_pad32 p)"
  have m16: "length (spec_pad32 p) mod 16 = 0"
    using length_spec_pad32 [of p] by presburger
  have inv: "\<And>b. length b = 16 \<Longrightarrow> ?D (?E b) = b"
    using assms(1) by (simp add: lib_inverse_def)
  have sz: "\<And>b. length b = 16 \<Longrightarrow> length (?E b) = 16"
    using assms(2) by (simp add: block_sized_def)
  have rt: "cbc_decrypt ?D iv ?ct = spec_pad32 p"
    using inv sz assms(4) m16 by (rule cbc_roundtrip)
  have lct: "length ?ct = length (spec_pad32 p)"
    using sz assms(4) m16 by (rule length_cbc_encrypt)
  have b64: "b64decode L (b64encode L (iv @ ?ct)) = Some (iv @ ?ct)"
    using assms(1) by (simp add: lib_inverse_def)
  have dec: "AESCipher_decrypt L (cipher_with_key k) (b64encode L (iv @ ?ct)) = Inr p"
    using assms(3,4) m16 lct rt
    by (simp add: AESCipher_decrypt_def b64 AES_new_def AES_decrypt_def m_key_cipher unpad_pad)
  show ?thesis
    using assms(3,4) dec by (simp add: init_cipher encrypt_cipher m_key_cipher)
qed

theorem decrypt_encrypt_roundtrip_witness:
  "\<exists>self blob. AESCipher_init (replicate 32 7) = Inr self \<and> m_key self = replicate 32 7 \<and>
      AESCipher_encrypt demo_lib self (replicate 16 3) [104, 105] = Inr blob \<and>
      AESCipher_decrypt demo_lib self blob = Inr [104, 105]"
  using decrypt_encrypt_roundtrip [OF demo_lib_inverse demo_lib_sized,
      of "replicate 32 7" "replicate 16 3" "[104, 105]"]
  by simp

section \<open>Properties of the file functions\<close>

lemma msg_fields:
  "fs (msg l m w) = fs w" "trace (msg l m w) = trace w @ [Msg l m]"
  "stats (msg l m w) = stats w" "rand_reads (msg l m w) = rand_reads w"
  by (simp_all add: msg_def)

lemma infov2_fields:
  "fs (infov2 opts m w) = fs w"
  "trace (infov2 opts m w) = trace w @ (if 1 < verbose opts then [Msg INFO m] else [])"
  "stats (infov2 opts m w) = stats w"
  by (simp_all add: infov2_def msg_fields)

lemma get_cont_fct_eq:
  "get_cont_fct opts m w =
     (if cont opts then Inr () else Inl (SystemExit 1),
      msg (if cont opts then WARNING else ERROR) m w)"
  by (simp add: get_cont_fct_def warn_def err_def)

lemma check_existence_eq:
  "check_existence env opts p w =
     (if \<not> overwrite opts \<and> os_path_exists env w p
      then (if cont opts then Inr () else Inl (SystemExit 1),
            msg (if cont opts then WARNING else ERROR) (FileExists p) w)
      else (Inr (), w))"
  by (simp add: check_existence_def get_cont_fct_eq)

text \<open>write_file: three outcomes\<close>
lemma write_file_cases:
  assumes "write_file env opts p content w = (r, w')"
  obtains
    (ok) "write_fault env p = NoFault" "r = Inr True"
      "trace w' = trace w @ [Wrote p content]" "fs w' = (fs w)(p \<mapsto> content)"
  | (failed) "write_fault env p \<noteq> NoFault" "cont opts" "r = Inr False"
      "trace w' = trace w @ [Msg WARNING (WriteFailed p)]"
  | (fatal) "write_fault env p \<noteq> NoFault" "\<not> cont opts" "r = Inl (SystemExit 1)"
      "trace w' = trace w @ [Msg ERROR (WriteFailed p)]"
  using assms
  by (cases "write_fault env p"; cases "cont opts")
     (auto simp: write_file_def get_cont_fct_eq msg_fields)

lemma write_file_keeps:
  assumes "write_file env opts p content w = (r, w')" "q \<noteq> p"
  shows "fs w' q = fs w q"
  using assms
  by (cases "write_fault env p"; cases "cont opts")
     (auto simp: write_file_def get_cont_fct_eq msg_fields)

lemma Random_read_fields:
  "fs (snd (Random_read env n w)) = fs w" "trace (snd (Random_read env n w)) = trace w"
  "length (fst (Random_read env n w)) = n"
  by (simp_all add: Random_read_def)

lemma os_remove_fields:
  "fs (os_remove p w) = (fs w)(p := None)" "trace (os_remove p w) = trace w @ [Removed p]"
  by (simp_all add: os_remove_def)

lemma pad_raises: "AESCipher_pad self s = Inl e \<Longrightarrow> e = IndexError"
  by (auto simp: AESCipher_pad_def py_index_def Let_def split: if_splits)

lemma AES_new_raises: "AES_new k iv = Inl e \<Longrightarrow> e = ValueError"
  by (auto simp: AES_new_def split: if_splits)

lemma encrypt_raises:
  "AESCipher_encrypt L self iv raw = Inl e \<Longrightarrow> e = ValueError \<or> e = IndexError"
  by (auto simp: AESCipher_encrypt_def AES_encrypt_def split: sum.splits if_splits
      dest: pad_raises AES_new_raises)

lemma decrypt_raises:
  "AESCipher_decrypt L self enc = Inl e \<Longrightarrow> e = ValueError \<or> e = IndexError"
  by (auto simp: AESCipher_decrypt_def AES_decrypt_def AESCipher_unpad_def Let_def
      split: sum.splits if_splits option.splits dest: AES_new_raises)

lemma read_file_cases:
  assumes "read_file env opts p w = (r, w')"
  obtains
    (data) content where "fs w p = Some content" "\<not> read_denied env p" "r = Inr (Some content)"
      "trace w' = trace w" "fs w' = fs w"
  | (failed) "read_denied env p \<or> fs w p = None"
      "r = (if cont opts then Inr None else Inl (SystemExit 1))"
      "trace w' = trace w @ [Msg (if cont opts then WARNING else ERROR) (ReadFailed p)]"
      "fs w' = fs w"
  using assms
  by (cases "read_denied env p"; cases "fs w p"; cases "cont opts")
     (auto simp: read_file_def get_cont_fct_eq msg_fields)

lemma check_existence_cases:
  assumes "check_existence env opts p w = (r, w')"
  obtains
    (pass) "overwrite opts \<or> \<not> os_path_exists env w p" "r = Inr ()" "w' = w"
  | (reported) "\<not> overwrite opts" "os_path_exists env w p"
      "r = (if cont opts then Inr () else Inl (SystemExit 1))"
      "trace w' = trace w @ [Msg (if cont opts then WARNING else ERROR) (FileExists p)]"
      "fs w' = fs w"
proof (cases "\<not> overwrite opts \<and> os_path_exists env w p")
  case True
  then have "r = (if cont opts then Inr () else Inl (SystemExit 1))"
    "w' = msg (if cont opts then WARNING else ERROR) (FileExists p) w"
    using assms by (simp_all add: check_existence_eq)
  then show thesis using True by (intro reported) (simp_all add: msg_fields)
next
  case False
  then have "r = Inr ()" "w' = w" using assms by (auto simp add: check_existence_eq)
  then show thesis using False by (intro pass) simp_all
qed

lemma frame_cases:
  fixes T :: "bytes \<Rightarrow> world \<Rightarrow> unit result"
  assumes res:
    "(case check_existence env opts out (infov2 opts im w) of
        (Inl e, w2) \<Rightarrow> (Inl e, w2)
      | (Inr _, w2) \<Rightarrow>
          (case read_file env opts p w2 of
             (Inl e, w3) \<Rightarrow> (Inl e, w3)
           | (Inr None, w3) \<Rightarrow> (Inr (), w3)
           | (Inr (Some content), w3) \<Rightarrow>
               (case T content w3 of
                  (Inl ValueError, w4) \<Rightarrow> get_cont_fct opts fm w4
                | r \<Rightarrow> r))) = (r, w')"
    and T: "\<And>content wa ra wb. T content wa = (ra, wb) \<Longrightarrow>
      (\<exists>e. ra = Inl e \<and> (e = ValueError \<or> e = IndexError) \<and> trace wb = trace wa \<and>
           fs wb = fs wa) \<or>
      (\<exists>data. write_fault env out = NoFault \<and> out \<noteq> p \<and> ra = Inr () \<and>
           trace wb = trace wa @ [Wrote out data, Removed p] \<and>
           fs wb = (fs wa)(out \<mapsto> data, p := None)) \<or>
      (\<exists>data. write_fault env out = NoFault \<and> out = p \<and> ra = Inr () \<and>
           trace wb = trace wa @ [Wrote out data] \<and> fs wb = (fs wa)(out \<mapsto> data)) \<or>
      (write_fault env out \<noteq> NoFault \<and>
           ra = (if cont opts then Inr () else Inl (SystemExit 1)) \<and>
           trace wb = trace wa @ [Msg (if cont opts then WARNING else ERROR) (WriteFailed out)] \<and>
           (\<forall>q. q \<noteq> out \<longrightarrow> fs wb q = fs wa q) \<and> (fs wa out \<noteq> None \<longrightarrow> fs wb out \<noteq> None))"
  shows "\<exists>pre. (\<forall>e \<in> set pre. \<exists>l m. e = Msg l m) \<and>
      ((trace w' = trace w @ pre \<and> fs w' = fs w) \<or>
       (\<exists>data. trace w' = trace w @ pre @ [Wrote out data, Removed p] \<and> out \<noteq> p \<and>
            write_fault env out = NoFault \<and> r = Inr () \<and>
            fs w' = (fs w)(out \<mapsto> data, p := None)) \<or>
       (\<exists>data. trace w' = trace w @ pre @ [Wrote out data] \<and> out = p \<and>
            write_fault env out = NoFault \<and> r = Inr () \<and> fs w' = (fs w)(out \<mapsto> data)) \<or>
       (\<exists>l. trace w' = trace w @ pre @ [Msg l (WriteFailed out)] \<and>
            write_fault env out \<noteq> NoFault \<and>
            (\<forall>q. q \<noteq> out \<longrightarrow> fs w' q = fs w q) \<and> (fs w out \<noteq> None \<longrightarrow> fs w' out \<noteq> None)))"
proof -
  define i where "i = (if 1 < verbose opts then [Msg INFO im] else [])"
  define w1 where "w1 = infov2 opts im w"
  have w1: "fs w1 = fs w" "trace w1 = trace w @ i"
    by (simp_all add: w1_def i_def infov2_fields)
  have i: "\<forall>e \<in> set i. \<exists>l m. e = Msg l m" by (simp add: i_def)
  obtain r2 w2 where ce: "check_existence env opts out w1 = (r2, w2)" by force
  obtain x where w2: "fs w2 = fs w" "trace w2 = trace w @ x" "\<forall>e \<in> set x. \<exists>l m. e = Msg l m"
    "r2 = Inr () \<or> r2 = Inl (SystemExit 1)"
    using ce
  proof (cases rule: check_existence_cases)
    case pass
    then show ?thesis using w1 i by (intro that [of i]) auto
  next
    case reported
    then show ?thesis using w1 i
      by (intro that [of "i @ [Msg (if cont opts then WARNING else ERROR) (FileExists out)]"]) auto
  qed
  show ?thesis
  proof (cases r2)
    case (Inl e)
    then have "r = Inl e" "w' = w2" using res ce by (simp_all add: w1_def)
    then show ?thesis using w2 by (intro exI [of _ x]) simp
  next
    case (Inr u)
    obtain r3 w3 where rf: "read_file env opts p w2 = (r3, w3)" by force
    from rf show ?thesis
    proof (cases rule: read_file_cases)
      case failed
      let ?y = "x @ [Msg (if cont opts then WARNING else ERROR) (ReadFailed p)]"
      have "w' = w3" using res ce rf Inr failed by (auto simp: w1_def split: if_splits)
      then show ?thesis using w2 failed by (intro exI [of _ ?y]) auto
    next
      case (data content)
      obtain r4 w4 where t: "T content w3 = (r4, w4)" by force
      have fin: "(r, w') = (case (r4, w4) of (Inl ValueError, w4) \<Rightarrow> get_cont_fct opts fm w4
                | r \<Rightarrow> r)"
        using res ce rf Inr data t by (simp add: w1_def)
      have w3: "fs w3 = fs w" "trace w3 = trace w @ x" using data w2 by simp_all
      from T [OF t] consider
          (raised) e where "r4 = Inl e" "e = ValueError \<or> e = IndexError"
            "trace w4 = trace w3" "fs w4 = fs w3"
        | (moved) d where "write_fault env out = NoFault" "out \<noteq> p" "r4 = Inr ()"
            "trace w4 = trace w3 @ [Wrote out d, Removed p]"
            "fs w4 = (fs w3)(out \<mapsto> d, p := None)"
        | (inplace) d where "write_fault env out = NoFault" "out = p" "r4 = Inr ()"
            "trace w4 = trace w3 @ [Wrote out d]" "fs w4 = (fs w3)(out \<mapsto> d)"
        | (write_failed) "write_fault env out \<noteq> NoFault"
            "r4 = (if cont opts then Inr () else Inl (SystemExit 1))"
            "trace w4 = trace w3 @ [Msg (if cont opts then WARNING else ERROR) (WriteFailed out)]"
            "\<forall>q. q \<noteq> out \<longrightarrow> fs w4 q = fs w3 q" "fs w3 out \<noteq> None \<longrightarrow> fs w4 out \<noteq> None"
        by blast
      then show ?thesis
      proof cases
        case e: raised
        show ?thesis
        proof (cases "e = ValueError")
          case True
          let ?y = "x @ [Msg (if cont opts then WARNING else ERROR) fm]"
          have "(r, w') = get_cont_fct opts fm w4" using fin e True by simp
          then have "fs w' = fs w" "trace w' = trace w @ ?y"
            using e w3 by (auto simp: get_cont_fct_eq msg_fields)
          then show ?thesis using w2 by (intro exI [of _ ?y]) auto
        next
          case False
          then have "e = IndexError" using e by simp
          then have "w' = w4" using fin e by simp
          then show ?thesis using w2 w3 e by (intro exI [of _ x]) simp
        qed
      next
        case a: moved
        then have "r = Inr ()" "w' = w4" using fin by simp_all
        then show ?thesis using a w2 w3 by (intro exI [of _ x]) auto
      next
        case a: inplace
        then have "r = Inr ()" "w' = w4" using fin by simp_all
        then show ?thesis using a w2 w3 by (intro exI [of _ x]) auto
      next
        case a: write_failed
        then have "w' = w4" using fin by (auto split: if_splits)
        then show ?thesis using a w2 w3 by (intro exI [of _ x]) auto
      qed
    qed
  qed
qed

lemma write_file_dest:
  assumes "write_file env opts p content w = (r, w')" "fs w p \<noteq> None"
  shows "fs w' p \<noteq> None"
  using assms
  by (cases "write_fault env p"; cases "cont opts")
     (auto simp: write_file_def get_cont_fct_eq msg_fields)

lemma lock_try_shape:
  assumes "lock_try env opts pw p out content wa = (ra, wb)"
  shows
    "(\<exists>e. ra = Inl e \<and> (e = ValueError \<or> e = IndexError) \<and> trace wb = trace wa \<and>
         fs wb = fs wa) \<or>
     (\<exists>data. write_fault env out = NoFault \<and> out \<noteq> p \<and> ra = Inr () \<and>
         trace wb = trace wa @ [Wrote out data, Removed p] \<and>
         fs wb = (fs wa)(out \<mapsto> data, p := None)) \<or>
     (\<exists>data. write_fault env out = NoFault \<and> out = p \<and> ra = Inr () \<and>
         trace wb = trace wa @ [Wrote out data] \<and> fs wb = (fs wa)(out \<mapsto> data)) \<or>
     (write_fault env out \<noteq> NoFault \<and>
         ra = (if cont opts then Inr () else Inl (SystemExit 1)) \<and>
         trace wb = trace wa @ [Msg (if cont opts then WARNING else ERROR) (WriteFailed out)] \<and>
         (\<forall>q. q \<noteq> out \<longrightarrow> fs wb q = fs wa q) \<and> (fs wa out \<noteq> None \<longrightarrow> fs wb out \<noteq> None))"
proof -
  obtain aes where aes: "AESCipher_init pw = Inr aes" by (simp add: init_cipher)
  obtain iv w1 where rr: "Random_read env 16 wa = (iv, w1)" by force
  have w1: "fs w1 = fs wa" "trace w1 = trace wa"
    using Random_read_fields(1,2) [of env 16 wa] rr by simp_all
  show ?thesis
  proof (cases "AESCipher_encrypt (lib env) aes iv content")
    case (Inl e)
    have "e = ValueError \<or> e = IndexError" using Inl by (rule encrypt_raises)
    then show ?thesis using Inl assms aes rr w1 by (auto simp: lock_try_def)
  next
    case (Inr data)
    obtain r2 w2 where wf: "write_file env opts out data w1 = (r2, w2)" by force
    have fin: "(ra, wb) = (if r2 = Inr True
        then (let w3 = (if out \<noteq> p then os_remove p w2 else w2)
              in (Inr (), w3\<lparr>stats := (stats w3)\<lparr>locked := locked (stats w3) + 1\<rparr>\<rparr>))
        else (case r2 of Inl e \<Rightarrow> (Inl e, w2) | Inr _ \<Rightarrow> (Inr (), w2)))"
      using assms aes rr Inr wf by (auto simp: lock_try_def split: sum.splits)
    from wf show ?thesis
    proof (cases rule: write_file_cases)
      case ok
      then show ?thesis using fin w1
        by (cases "out = p") (auto simp: Let_def os_remove_fields)
    next
      case failed
      then show ?thesis
        using fin w1 write_file_keeps [OF wf] write_file_dest [OF wf] by auto
    next
      case fatal
      then show ?thesis
        using fin w1 write_file_keeps [OF wf] write_file_dest [OF wf] by auto
    qed
  qed
qed

lemma unlock_try_shape:
  assumes "unlock_try env opts pw p out content wa = (ra, wb)"
  shows
    "(\<exists>e. ra = Inl e \<and> (e = ValueError \<or> e = IndexError) \<and> trace wb = trace wa \<and>
         fs wb = fs wa) \<or>
     (\<exists>data. write_fault env out = NoFault \<and> out \<noteq> p \<and> ra = Inr () \<and>
         trace wb = trace wa @ [Wrote out data, Removed p] \<and>
         fs wb = (fs wa)(out \<mapsto> data, p := None)) \<or>
     (\<exists>data. write_fault env out = NoFault \<and> out = p \<and> ra = Inr () \<and>
         trace wb = trace wa @ [Wrote out data] \<and> fs wb = (fs wa)(out \<mapsto> data)) \<or>
     (write_fault env out \<noteq> NoFault \<and>
         ra = (if cont opts then Inr () else Inl (SystemExit 1)) \<and>
         trace wb = trace wa @ [Msg (if cont opts then WARNING else ERROR) (WriteFailed out)] \<and>
         (\<forall>q. q \<noteq> out \<longrightarrow> fs wb q = fs wa q) \<and> (fs wa out \<noteq> None \<longrightarrow> fs wb out \<noteq> None))"
proof -
  obtain aes where aes: "AESCipher_init pw = Inr aes" by (simp add: init_cipher)
  show ?thesis
  proof (cases "AESCipher_decrypt (lib env) aes content")
    case (Inl e)
    have "e = ValueError \<or> e = IndexError" using Inl by (rule decrypt_raises)
    then show ?thesis using Inl assms aes by (auto simp: unlock_try_def)
  next
    case (Inr data)
    obtain r2 w2 where wf: "write_file env opts out data wa = (r2, w2)" by force
    have fin: "(ra, wb) = (if r2 = Inr True
        then (let w3 = (if out \<noteq> p then os_remove p w2 else w2)
              in (Inr (), w3\<lparr>stats := (stats w3)\<lparr>unlocked := unlocked (stats w3) + 1\<rparr>\<rparr>))
        else (case r2 of Inl e \<Rightarrow> (Inl e, w2) | Inr _ \<Rightarrow> (Inr (), w2)))"
      using assms aes Inr wf by (auto simp: unlock_try_def split: sum.splits)
    from wf show ?thesis
    proof (cases rule: write_file_cases)
      case ok
      then show ?thesis using fin
        by (cases "out = p") (auto simp: Let_def os_remove_fields)
    next
      case failed
      then show ?thesis
        using fin write_file_keeps [OF wf] write_file_dest [OF wf] by auto
    next
      case fatal
      then show ?thesis
        using fin write_file_keeps [OF wf] write_file_dest [OF wf] by auto
    qed
  qed
qed

lemma lock_file_shape:
  assumes "lock_file env opts pw p w = (r, w')"
  shows "\<exists>pre. (\<forall>e \<in> set pre. \<exists>l m. e = Msg l m) \<and>
      ((trace w' = trace w @ pre \<and> fs w' = fs w) \<or>
       (\<exists>data. trace w' = trace w @ pre @ [Wrote (p @ suffix opts) data, Removed p] \<and>
            p @ suffix opts \<noteq> p \<and>
            write_fault env (p @ suffix opts) = NoFault \<and> r = Inr () \<and>
            fs w' = (fs w)(p @ suffix opts \<mapsto> data, p := None)) \<or>
       (\<exists>data. trace w' = trace w @ pre @ [Wrote (p @ suffix opts) data] \<and>
            p @ suffix opts = p \<and>
            write_fault env (p @ suffix opts) = NoFault \<and> r = Inr () \<and>
            fs w' = (fs w)(p @ suffix opts \<mapsto> data)) \<or>
       (\<exists>l. trace w' = trace w @ pre @ [Msg l (WriteFailed (p @ suffix opts))] \<and>
            write_fault env (p @ suffix opts) \<noteq> NoFault \<and>
            (\<forall>q. q \<noteq> p @ suffix opts \<longrightarrow> fs w' q = fs w q) \<and>
            (fs w (p @ suffix opts) \<noteq> None \<longrightarrow> fs w' (p @ suffix opts) \<noteq> None)))"
  using assms unfolding lock_file_def Let_def
  by (rule frame_cases) (erule lock_try_shape)

lemma unlock_file_shape:
  assumes "unlock_file env opts pw p w = (r, w')"
    and "out = (if 0 < length (suffix opts) then slice_to_minus p (length (suffix opts)) else p)"
  shows "\<exists>pre. (\<forall>e \<in> set pre. \<exists>l m. e = Msg l m) \<and>
      ((trace w' = trace w @ pre \<and> fs w' = fs w) \<or>
       (\<exists>data. trace w' = trace w @ pre @ [Wrote out data, Removed p] \<and> out \<noteq> p \<and>
            write_fault env out = NoFault \<and> r = Inr () \<and>
            fs w' = (fs w)(out \<mapsto> data, p := None)) \<or>
       (\<exists>data. trace w' = trace w @ pre @ [Wrote out data] \<and> out = p \<and>
            write_fault env out = NoFault \<and> r = Inr () \<and> fs w' = (fs w)(out \<mapsto> data)) \<or>
       (\<exists>l. trace w' = trace w @ pre @ [Msg l (WriteFailed out)] \<and>
            write_fault env out \<noteq> NoFault \<and>
            (\<forall>q. q \<noteq> out \<longrightarrow> fs w' q = fs w q) \<and> (fs w out \<noteq> None \<longrightarrow> fs w' out \<noteq> None)))"
proof (cases "endswith p (suffix opts)")
  case True
  show ?thesis
    using assms(1) True unfolding unlock_file_def Let_def if_True assms(2)
    by (simp only: if_True) (rule frame_cases, assumption, erule unlock_try_shape)
next
  case False
  let ?pre = "if 1 < verbose opts then [Msg INFO (SkipInfo p)] else []"
  have "trace w' = trace w @ ?pre" "fs w' = fs w"
    using assms(1) False by (auto simp: unlock_file_def Let_def infov2_fields)
  then show ?thesis by (intro exI [of _ ?pre]) simp
qed

text \<open>From the shape of a transition to the order of its write and its removal\<close>
lemma shape_order:
  assumes "\<exists>pre. (\<forall>e \<in> set pre. \<exists>l m. e = Msg l m) \<and>
      ((trace w' = trace w @ pre \<and> fs w' = fs w) \<or>
       (\<exists>data. trace w' = trace w @ pre @ [Wrote out data, Removed p] \<and> out \<noteq> p \<and>
            write_fault env out = NoFault \<and> r = Inr () \<and>
            fs w' = (fs w)(out \<mapsto> data, p := None)) \<or>
       (\<exists>data. trace w' = trace w @ pre @ [Wrote out data] \<and> out = p \<and>
            write_fault env out = NoFault \<and> r = Inr () \<and> fs w' = (fs w)(out \<mapsto> data)) \<or>
       (\<exists>l. trace w' = trace w @ pre @ [Msg l (WriteFailed out)] \<and>
            write_fault env out \<noteq> NoFault \<and>
            (\<forall>q. q \<noteq> out \<longrightarrow> fs w' q = fs w q) \<and> (fs w out \<noteq> None \<longrightarrow> fs w' out \<noteq> None)))"
  shows "\<exists>new. trace w' = trace w @ new \<and>
      (\<forall>q. Removed q \<in> set new \<longrightarrow>
         q = p \<and> out \<noteq> p \<and> write_fault env out = NoFault \<and>
         (\<exists>pre data. new = pre @ [Wrote out data, Removed p] \<and> fs w' out = Some data)) \<and>
      (fs w p \<noteq> None \<and> fs w' p = None \<longrightarrow> Removed p \<in> set new) \<and>
      (out = p \<longrightarrow> (\<forall>q. Removed q \<notin> set new))"
proof -
  from assms obtain pre where pre: "\<forall>e \<in> set pre. \<exists>l m. e = Msg l m"
    and cases: "(trace w' = trace w @ pre \<and> fs w' = fs w) \<or>
       (\<exists>data. trace w' = trace w @ pre @ [Wrote out data, Removed p] \<and> out \<noteq> p \<and>
            write_fault env out = NoFault \<and> r = Inr () \<and>
            fs w' = (fs w)(out \<mapsto> data, p := None)) \<or>
       (\<exists>data. trace w' = trace w @ pre @ [Wrote out data] \<and> out = p \<and>
            write_fault env out = NoFault \<and> r = Inr () \<and> fs w' = (fs w)(out \<mapsto> data)) \<or>
       (\<exists>l. trace w' = trace w @ pre @ [Msg l (WriteFailed out)] \<and>
            write_fault env out \<noteq> NoFault \<and>
            (\<forall>q. q \<noteq> out \<longrightarrow> fs w' q = fs w q) \<and> (fs w out \<noteq> None \<longrightarrow> fs w' out \<noteq> None))"
    by blast
  have nopre: "\<And>q. Removed q \<notin> set pre" using pre by auto
  from cases consider
      (quiet) "trace w' = trace w @ pre" "fs w' = fs w"
    | (moved) data where "trace w' = trace w @ pre @ [Wrote out data, Removed p]" "out \<noteq> p"
        "write_fault env out = NoFault" "fs w' = (fs w)(out \<mapsto> data, p := None)"
    | (inplace) data where "trace w' = trace w @ pre @ [Wrote out data]" "out = p"
        "fs w' = (fs w)(out \<mapsto> data)"
    | (write_failed) l where "trace w' = trace w @ pre @ [Msg l (WriteFailed out)]"
        "\<forall>q. q \<noteq> out \<longrightarrow> fs w' q = fs w q" "fs w out \<noteq> None \<longrightarrow> fs w' out \<noteq> None"
    by blast
  then show ?thesis
  proof cases
    case quiet
    then show ?thesis using nopre by (intro exI [of _ pre]) auto
  next
    case moved
    then show ?thesis using nopre
      by (intro exI [of _ "pre @ [Wrote out data, Removed p]"]) auto
  next
    case inplace
    then show ?thesis using nopre by (intro exI [of _ "pre @ [Wrote out data]"]) auto
  next
    case write_failed
    then show ?thesis using nopre
      by (intro exI [of _ "pre @ [Msg l (WriteFailed out)]"]) (cases "p = out"; auto)
  qed
qed

text \<open>
  Claim C5. In \<^verbatim>\<open>lock_file\<close> and in \<^verbatim>\<open>unlock_file\<close>, with \<open>out\<close> the
  destination: the events of the call extend the trace; a removal in them is the removal
  of the source \<open>p\<close>, it is the last event, the event before it is the complete write
  of \<open>out\<close>, which is then in the file system, and \<open>out\<close> differs from \<open>p\<close>; a
  source that was there and is gone was removed so; with \<open>out = p\<close>, as with the
  empty suffix, nothing is removed.
\<close>

theorem source_removed_only_after_write:
  "(lock_file env opts pw p w = (r, w') \<and> out = p @ suffix opts \<or>
    unlock_file env opts pw p w = (r, w') \<and>
      out = (if 0 < length (suffix opts) then slice_to_minus p (length (suffix opts)) else p))
   \<Longrightarrow>
   (\<exists>new. trace w' = trace w @ new \<and>
      (\<forall>q. Removed q \<in> set new \<longrightarrow>
         q = p \<and> out \<noteq> p \<and> write_fault env out = NoFault \<and>
         (\<exists>pre data. new = pre @ [Wrote out data, Removed p] \<and> fs w' out = Some data)) \<and>
      (fs w p \<noteq> None \<and> fs w' p = None \<longrightarrow> Removed p \<in> set new) \<and>
      (out = p \<longrightarrow> (\<forall>q. Removed q \<notin> set new))) \<and>
   (suffix opts = [] \<longrightarrow> out = p)"
proof (elim disjE conjE)
  assume a: "lock_file env opts pw p w = (r, w')" "out = p @ suffix opts"
  show ?thesis using shape_order [OF lock_file_shape [OF a(1)]] a(2) by simp
next
  assume a: "unlock_file env opts pw p w = (r, w')"
    "out = (if 0 < length (suffix opts) then slice_to_minus p (length (suffix opts)) else p)"
  show ?thesis using shape_order [OF unlock_file_shape [OF a]] a(2) by simp
qed

lemma os_path_exists_infov2:
  "os_path_exists env (infov2 opts m w) q = os_path_exists env w q"
  by (simp add: os_path_exists_def infov2_fields)

lemma infov2_rand: "rand_reads (infov2 opts m w) = rand_reads w"
  by (simp add: infov2_def msg_fields)

text \<open>The world after the information line and the existence check\<close>
lemma after_check:
  obtains r2 w2 where
    "check_existence env opts out (infov2 opts im w) = (r2, w2)"
    "fs w2 = fs w" "rand_reads w2 = rand_reads w"
    "trace w2 = trace w @ (if 1 < verbose opts then [Msg INFO im] else []) @
       (if \<not> overwrite opts \<and> os_path_exists env w out
        then [Msg (if cont opts then WARNING else ERROR) (FileExists out)] else [])"
    "r2 = (if \<not> overwrite opts \<and> os_path_exists env w out \<and> \<not> cont opts
          then Inl (SystemExit 1) else Inr ())"
proof -
  obtain r2 w2 where ce: "check_existence env opts out (infov2 opts im w) = (r2, w2)"
    by force
  then show thesis
    by (intro that [of r2 w2])
       (auto simp: check_existence_eq os_path_exists_infov2 infov2_fields infov2_rand msg_fields
          split: if_splits)
qed

lemma frame_exists_fatal:
  fixes T :: "bytes \<Rightarrow> world \<Rightarrow> unit result"
  assumes "\<not> cont opts" "\<not> overwrite opts" "os_path_exists env w out"
  shows "\<exists>w'. (case check_existence env opts out (infov2 opts im w) of
        (Inl e, w2) \<Rightarrow> (Inl e, w2)
      | (Inr _, w2) \<Rightarrow>
          (case read_file env opts p w2 of
             (Inl e, w3) \<Rightarrow> (Inl e, w3)
           | (Inr None, w3) \<Rightarrow> (Inr (), w3)
           | (Inr (Some content), w3) \<Rightarrow>
               (case T content w3 of
                  (Inl ValueError, w4) \<Rightarrow> get_cont_fct opts fm w4
                | r \<Rightarrow> r))) = (Inl (SystemExit 1), w') \<and>
     fs w' = fs w \<and>
     trace w' = trace w @ (if 1 < verbose opts then [Msg INFO im] else []) @
       [Msg ERROR (FileExists out)]"
proof -
  obtain r2 w2 where c: "check_existence env opts out (infov2 opts im w) = (r2, w2)"
    "fs w2 = fs w"
    "trace w2 = trace w @ (if 1 < verbose opts then [Msg INFO im] else []) @
       (if \<not> overwrite opts \<and> os_path_exists env w out
        then [Msg (if cont opts then WARNING else ERROR) (FileExists out)] else [])"
    "r2 = (if \<not> overwrite opts \<and> os_path_exists env w out \<and> \<not> cont opts
          then Inl (SystemExit 1) else Inr ())"
    by (rule after_check)
  show ?thesis using c assms by (intro exI [of _ w2]) simp
qed

lemma frame_read_failed:
  fixes T :: "bytes \<Rightarrow> world \<Rightarrow> unit result"
  assumes "cont opts \<or> overwrite opts \<or> \<not> os_path_exists env w out"
    and "read_denied env p \<or> fs w p = None"
  shows "\<exists>w'. (case check_existence env opts out (infov2 opts im w) of
        (Inl e, w2) \<Rightarrow> (Inl e, w2)
      | (Inr _, w2) \<Rightarrow>
          (case read_file env opts p w2 of
             (Inl e, w3) \<Rightarrow> (Inl e, w3)
           | (Inr None, w3) \<Rightarrow> (Inr (), w3)
           | (Inr (Some content), w3) \<Rightarrow>
               (case T content w3 of
                  (Inl ValueError, w4) \<Rightarrow> get_cont_fct opts fm w4
                | r \<Rightarrow> r))) =
        (if cont opts then Inr () else Inl (SystemExit 1), w') \<and>
     fs w' = fs w \<and>
     trace w' = trace w @ (if 1 < verbose opts then [Msg INFO im] else []) @
       (if \<not> overwrite opts \<and> os_path_exists env w out
        then [Msg WARNING (FileExists out)] else []) @
       [Msg (if cont opts then WARNING else ERROR) (ReadFailed p)]"
proof -
  obtain r2 w2 where c: "check_existence env opts out (infov2 opts im w) = (r2, w2)"
    "fs w2 = fs w"
    "trace w2 = trace w @ (if 1 < verbose opts then [Msg INFO im] else []) @
       (if \<not> overwrite opts \<and> os_path_exists env w out
        then [Msg (if cont opts then WARNING else ERROR) (FileExists out)] else [])"
    "r2 = (if \<not> overwrite opts \<and> os_path_exists env w out \<and> \<not> cont opts
          then Inl (SystemExit 1) else Inr ())"
    by (rule after_check)
  obtain r3 w3 where rf: "read_file env opts p w2 = (r3, w3)" by force
  from rf show ?thesis
  proof (cases rule: read_file_cases)
    case (data content)
    then show ?thesis using assms(2) c(2) by simp
  next
    case failed
    then show ?thesis using c assms(1) rf
      by (intro exI [of _ w3]) (auto split: if_splits)
  qed
qed

lemma frame_try:
  fixes T :: "bytes \<Rightarrow> world \<Rightarrow> unit result"
  assumes "cont opts \<or> overwrite opts \<or> \<not> os_path_exists env w out"
    and "fs w p = Some content" "\<not> read_denied env p"
  shows "\<exists>w3. (case check_existence env opts out (infov2 opts im w) of
        (Inl e, w2) \<Rightarrow> (Inl e, w2)
      | (Inr _, w2) \<Rightarrow>
          (case read_file env opts p w2 of
             (Inl e, w3) \<Rightarrow> (Inl e, w3)
           | (Inr None, w3) \<Rightarrow> (Inr (), w3)
           | (Inr (Some content), w3) \<Rightarrow>
               (case T content w3 of
                  (Inl ValueError, w4) \<Rightarrow> get_cont_fct opts fm w4
                | r \<Rightarrow> r))) =
        (case T content w3 of
           (Inl ValueError, w4) \<Rightarrow> get_cont_fct opts fm w4
         | r \<Rightarrow> r) \<and>
     fs w3 = fs w \<and> rand_reads w3 = rand_reads w \<and>
     trace w3 = trace w @ (if 1 < verbose opts then [Msg INFO im] else []) @
       (if \<not> overwrite opts \<and> os_path_exists env w out
        then [Msg WARNING (FileExists out)] else [])"
proof -
  obtain r2 w2 where c: "check_existence env opts out (infov2 opts im w) = (r2, w2)"
    "fs w2 = fs w" "rand_reads w2 = rand_reads w"
    "trace w2 = trace w @ (if 1 < verbose opts then [Msg INFO im] else []) @
       (if \<not> overwrite opts \<and> os_path_exists env w out
        then [Msg (if cont opts then WARNING else ERROR) (FileExists out)] else [])"
    "r2 = (if \<not> overwrite opts \<and> os_path_exists env w out \<and> \<not> cont opts
          then Inl (SystemExit 1) else Inr ())"
    by (rule after_check)
  let ?w3 = "w2\<lparr>stats := (stats w2)\<lparr>read := read (stats w2) + length content\<rparr>\<rparr>"
  have rf: "read_file env opts p w2 = (Inr (Some content), ?w3)"
    using assms(2,3) c(2) by (simp add: read_file_def)
  show ?thesis using c assms(1) rf
    by (intro exI [of _ ?w3]) (auto split: if_splits)
qed

lemma Random_read_eq:
  "Random_read env n w = (map (random_byte env (rand_reads w)) [0..<n],
     w\<lparr>rand_reads := rand_reads w + 1\<rparr>)"
  by (simp add: Random_read_def)

text \<open>The blob that encrypt returns, and the key after normalisation\<close>

lemma encrypt_init:
  assumes "AESCipher_init pw = Inr aes" "length iv = 16"
  shows "AESCipher_encrypt L aes iv content =
     Inr (b64encode L (iv @ cbc_encrypt (block_encrypt L (m_key aes)) iv (spec_pad32 content)))"
proof -
  let ?k = "if 32 \<le> length pw then take 32 pw else spec_pad32 pw"
  have aes: "aes = cipher_with_key ?k" using assms(1) by (simp add: init_cipher)
  have "length ?k = 32" by (rule length_normalised)
  then show ?thesis using assms(2) unfolding aes m_key_cipher by (rule encrypt_cipher)
qed

lemma write_file_ok:
  assumes "write_fault env p = NoFault"
  shows "\<exists>w'. write_file env opts p content w = (Inr True, w') \<and>
     fs w' = (fs w)(p \<mapsto> content) \<and> trace w' = trace w @ [Wrote p content] \<and>
     rand_reads w' = rand_reads w"
  using assms by (simp add: write_file_def)

lemma write_file_failed:
  assumes "write_fault env p \<noteq> NoFault"
  shows "\<exists>w'. write_file env opts p content w =
       (if cont opts then Inr False else Inl (SystemExit 1), w') \<and>
     fs w' = (case write_fault env p of WriteFails n \<Rightarrow> (fs w)(p \<mapsto> take n content)
              | _ \<Rightarrow> fs w) \<and>
     trace w' = trace w @ [Msg (if cont opts then WARNING else ERROR) (WriteFailed p)]"
  using assms
  by (cases "write_fault env p") (auto simp: write_file_def get_cont_fct_eq msg_fields)

lemma lock_try_ok:
  assumes "write_fault env out = NoFault" "AESCipher_init pw = Inr aes"
    and "iv = map (random_byte env (rand_reads wa)) [0..<16]"
    and "data = b64encode (lib env)
           (iv @ cbc_encrypt (block_encrypt (lib env) (m_key aes)) iv (spec_pad32 content))"
  shows "\<exists>wb. lock_try env opts pw p out content wa = (Inr (), wb) \<and>
     fs wb = (if out \<noteq> p then (fs wa)(out \<mapsto> data, p := None) else (fs wa)(out \<mapsto> data)) \<and>
     trace wb = trace wa @ Wrote out data # (if out \<noteq> p then [Removed p] else [])"
proof -
  have iv: "length iv = 16" using assms(3) by simp
  have enc: "AESCipher_encrypt (lib env) aes iv content = Inr data"
    using encrypt_init [OF assms(2) iv] assms(4) by simp
  let ?w1 = "wa\<lparr>rand_reads := rand_reads wa + 1\<rparr>"
  obtain w2 where w2: "write_file env opts out data ?w1 = (Inr True, w2)"
    "fs w2 = (fs ?w1)(out \<mapsto> data)" "trace w2 = trace ?w1 @ [Wrote out data]"
    using write_file_ok [OF assms(1), of opts data ?w1] by blast
  show ?thesis
    using assms(2,3) enc w2
    by (cases "out = p")
       (simp_all add: lock_try_def Random_read_eq Let_def os_remove_fields)
qed

lemma lock_try_write_failed:
  assumes "write_fault env out \<noteq> NoFault" "AESCipher_init pw = Inr aes"
    and "iv = map (random_byte env (rand_reads wa)) [0..<16]"
    and "data = b64encode (lib env)
           (iv @ cbc_encrypt (block_encrypt (lib env) (m_key aes)) iv (spec_pad32 content))"
  shows "\<exists>wb. lock_try env opts pw p out content wa =
       (if cont opts then Inr () else Inl (SystemExit 1), wb) \<and>
     fs wb = (case write_fault env out of WriteFails n \<Rightarrow> (fs wa)(out \<mapsto> take n data)
              | _ \<Rightarrow> fs wa) \<and>
     trace wb = trace wa @ [Msg (if cont opts then WARNING else ERROR) (WriteFailed out)]"
proof -
  have iv: "length iv = 16" using assms(3) by simp
  have enc: "AESCipher_encrypt (lib env) aes iv content = Inr data"
    using encrypt_init [OF assms(2) iv] assms(4) by simp
  let ?w1 = "wa\<lparr>rand_reads := rand_reads wa + 1\<rparr>"
  obtain w2 where w2: "write_file env opts out data ?w1 =
       (if cont opts then Inr False else Inl (SystemExit 1), w2)"
    "fs w2 = (case write_fault env out of WriteFails n \<Rightarrow> (fs ?w1)(out \<mapsto> take n data)
              | _ \<Rightarrow> fs ?w1)"
    "trace w2 = trace ?w1 @ [Msg (if cont opts then WARNING else ERROR) (WriteFailed out)]"
    using write_file_failed [OF assms(1), of opts data ?w1] by blast
  show ?thesis
    using assms(2,3) enc w2
    by (cases "cont opts") (simp_all add: lock_try_def Random_read_eq split: write_fault.splits)
qed

lemma unlock_try_ok:
  assumes "write_fault env out = NoFault" "AESCipher_init pw = Inr aes"
    and "AESCipher_decrypt (lib env) aes content = Inr data"
  shows "\<exists>wb. unlock_try env opts pw p out content wa = (Inr (), wb) \<and>
     fs wb = (if out \<noteq> p then (fs wa)(out \<mapsto> data, p := None) else (fs wa)(out \<mapsto> data)) \<and>
     trace wb = trace wa @ Wrote out data # (if out \<noteq> p then [Removed p] else [])"
proof -
  obtain w2 where w2: "write_file env opts out data wa = (Inr True, w2)"
    "fs w2 = (fs wa)(out \<mapsto> data)" "trace w2 = trace wa @ [Wrote out data]"
    using write_file_ok [OF assms(1), of opts data wa] by blast
  show ?thesis
    using assms(2,3) w2
    by (cases "out = p") (simp_all add: unlock_try_def Let_def os_remove_fields)
qed

lemma unlock_try_write_failed:
  assumes "write_fault env out \<noteq> NoFault" "AESCipher_init pw = Inr aes"
    and "AESCipher_decrypt (lib env) aes content = Inr data"
  shows "\<exists>wb. unlock_try env opts pw p out content wa =
       (if cont opts then Inr () else Inl (SystemExit 1), wb) \<and>
     fs wb = (case write_fault env out of WriteFails n \<Rightarrow> (fs wa)(out \<mapsto> take n data)
              | _ \<Rightarrow> fs wa) \<and>
     trace wb = trace wa @ [Msg (if cont opts then WARNING else ERROR) (WriteFailed out)]"
proof -
  obtain w2 where w2: "write_file env opts out data wa =
       (if cont opts then Inr False else Inl (SystemExit 1), w2)"
    "fs w2 = (case write_fault env out of WriteFails n \<Rightarrow> (fs wa)(out \<mapsto> take n data)
              | _ \<Rightarrow> fs wa)"
    "trace w2 = trace wa @ [Msg (if cont opts then WARNING else ERROR) (WriteFailed out)]"
    using write_file_failed [OF assms(1), of opts data wa] by blast
  show ?thesis
    using assms(2,3) w2 by (cases "cont opts") (simp_all add: unlock_try_def)
qed

lemma unlock_try_raises:
  assumes "AESCipher_init pw = Inr aes" "AESCipher_decrypt (lib env) aes content = Inl e"
  shows "unlock_try env opts pw p out content wa = (Inl e, wa)"
  using assms by (simp add: unlock_try_def)

text \<open>lock_file and unlock_file as instances of the frame\<close>

lemma lock_file_frame:
  "lock_file env opts pw p w =
     (case check_existence env opts (p @ suffix opts)
             (infov2 opts (LockInfo p (p @ suffix opts)) w) of
        (Inl e, w2) \<Rightarrow> (Inl e, w2)
      | (Inr _, w2) \<Rightarrow>
          (case read_file env opts p w2 of
             (Inl e, w3) \<Rightarrow> (Inl e, w3)
           | (Inr None, w3) \<Rightarrow> (Inr (), w3)
           | (Inr (Some content), w3) \<Rightarrow>
               (case lock_try env opts pw p (p @ suffix opts) content w3 of
                  (Inl ValueError, w4) \<Rightarrow> get_cont_fct opts (LockFailed p) w4
                | r \<Rightarrow> r)))"
  unfolding lock_file_def Let_def ..

lemma unlock_file_frame:
  assumes "endswith p (suffix opts)"
    and "out = (if 0 < length (suffix opts) then slice_to_minus p (length (suffix opts)) else p)"
  shows "unlock_file env opts pw p w =
     (case check_existence env opts out (infov2 opts (UnlockInfo p out) w) of
        (Inl e, w2) \<Rightarrow> (Inl e, w2)
      | (Inr _, w2) \<Rightarrow>
          (case read_file env opts p w2 of
             (Inl e, w3) \<Rightarrow> (Inl e, w3)
           | (Inr None, w3) \<Rightarrow> (Inr (), w3)
           | (Inr (Some content), w3) \<Rightarrow>
               (case unlock_try env opts pw p out content w3 of
                  (Inl ValueError, w4) \<Rightarrow> get_cont_fct opts (UnlockFailed p) w4
                | r \<Rightarrow> r)))"
  unfolding unlock_file_def Let_def assms(2) using assms(1) by (simp only: if_True)

lemma process_file_eq:
  "process_file env opts pw p w =
     (if lock opts
      then lock_file env opts pw p (w\<lparr>stats := (stats w)\<lparr>files := files (stats w) + 1\<rparr>\<rparr>)
      else unlock_file env opts pw p (w\<lparr>stats := (stats w)\<lparr>files := files (stats w) + 1\<rparr>\<rparr>))"
  by (simp add: process_file_def Let_def)

lemma counted_fields:
  "fs (w\<lparr>stats := s\<rparr>) = fs w" "trace (w\<lparr>stats := s\<rparr>) = trace w"
  "rand_reads (w\<lparr>stats := s\<rparr>) = rand_reads w"
  "os_path_exists env (w\<lparr>stats := s\<rparr>) q = os_path_exists env w q"
  by (simp_all add: os_path_exists_def)

lemma lock_file_ok:
  assumes "cont opts \<or> overwrite opts \<or> \<not> os_path_exists env w (p @ suffix opts)"
    and "fs w p = Some content" "\<not> read_denied env p"
    and "write_fault env (p @ suffix opts) = NoFault"
    and "AESCipher_init pw = Inr aes"
    and "iv = map (random_byte env (rand_reads w)) [0..<16]"
    and "data = b64encode (lib env)
           (iv @ cbc_encrypt (block_encrypt (lib env) (m_key aes)) iv (spec_pad32 content))"
  shows "\<exists>w'. lock_file env opts pw p w = (Inr (), w') \<and>
     fs w' = (if p @ suffix opts \<noteq> p then (fs w)(p @ suffix opts \<mapsto> data, p := None)
              else (fs w)(p @ suffix opts \<mapsto> data)) \<and>
     trace w' = trace w @
       (if 1 < verbose opts then [Msg INFO (LockInfo p (p @ suffix opts))] else []) @
       (if \<not> overwrite opts \<and> os_path_exists env w (p @ suffix opts)
        then [Msg WARNING (FileExists (p @ suffix opts))] else []) @
       Wrote (p @ suffix opts) data # (if p @ suffix opts \<noteq> p then [Removed p] else [])"
proof -
  let ?out = "p @ suffix opts"
  have "\<exists>w3. lock_file env opts pw p w =
      (case lock_try env opts pw p ?out content w3 of
         (Inl ValueError, w4) \<Rightarrow> get_cont_fct opts (LockFailed p) w4 | r \<Rightarrow> r) \<and>
    fs w3 = fs w \<and> rand_reads w3 = rand_reads w \<and>
    trace w3 = trace w @ (if 1 < verbose opts then [Msg INFO (LockInfo p ?out)] else []) @
       (if \<not> overwrite opts \<and> os_path_exists env w ?out
        then [Msg WARNING (FileExists ?out)] else [])"
    unfolding lock_file_frame by (rule frame_try [OF assms(1,2,3)])
  then obtain w3 where w3: "lock_file env opts pw p w =
      (case lock_try env opts pw p ?out content w3 of
         (Inl ValueError, w4) \<Rightarrow> get_cont_fct opts (LockFailed p) w4 | r \<Rightarrow> r)"
    "fs w3 = fs w" "rand_reads w3 = rand_reads w"
    "trace w3 = trace w @ (if 1 < verbose opts then [Msg INFO (LockInfo p ?out)] else []) @
       (if \<not> overwrite opts \<and> os_path_exists env w ?out
        then [Msg WARNING (FileExists ?out)] else [])"
    by blast
  obtain wb where wb: "lock_try env opts pw p ?out content w3 = (Inr (), wb)"
    "fs wb = (if ?out \<noteq> p then (fs w3)(?out \<mapsto> data, p := None) else (fs w3)(?out \<mapsto> data))"
    "trace wb = trace w3 @ Wrote ?out data # (if ?out \<noteq> p then [Removed p] else [])"
    using lock_try_ok [OF assms(4,5), of iv w3 data content opts p] assms(6,7) w3(3) by auto
  show ?thesis using w3 wb by (intro exI [of _ wb]) simp
qed

lemma lock_file_ok_ex:
  assumes "cont opts \<or> overwrite opts \<or> \<not> os_path_exists env w (p @ suffix opts)"
    and "fs w p = Some content" "\<not> read_denied env p"
    and "write_fault env (p @ suffix opts) = NoFault"
  shows "\<exists>w' data. lock_file env opts pw p w = (Inr (), w') \<and>
     fs w' = (if p @ suffix opts \<noteq> p then (fs w)(p @ suffix opts \<mapsto> data, p := None)
              else (fs w)(p @ suffix opts \<mapsto> data)) \<and>
     trace w' = trace w @
       (if 1 < verbose opts then [Msg INFO (LockInfo p (p @ suffix opts))] else []) @
       (if \<not> overwrite opts \<and> os_path_exists env w (p @ suffix opts)
        then [Msg WARNING (FileExists (p @ suffix opts))] else []) @
       Wrote (p @ suffix opts) data # (if p @ suffix opts \<noteq> p then [Removed p] else [])"
  using lock_file_ok [OF assms init_cipher refl refl] by blast

lemma demo_env_fields:
  "lib demo_env = demo_lib" "read_denied demo_env q = False"
  "write_fault demo_env q = NoFault" "is_dir demo_env q = False"
  "random_byte demo_env i j = 0"
  by (simp_all add: demo_env_def)

lemma demo_world_fields:
  "fs (demo_world f) = f" "trace (demo_world f) = []" "rand_reads (demo_world f) = 0"
  by (simp_all add: demo_world_def)

lemma demo_opts_fields:
  "cont demo_opts = False" "overwrite demo_opts = False" "lock demo_opts = True"
  "suffix demo_opts = ''.locked''" "verbose demo_opts = 0"
  by (simp_all add: demo_opts_def)

theorem source_removed_only_after_write_witness:
  "Removed ''a'' \<in> set (trace (snd (lock_file demo_env demo_opts [] ''a''
       (demo_world [''a'' \<mapsto> [1]])))) \<and>
   write_fault demo_env ''a.locked'' = NoFault \<and>
   fs (snd (lock_file demo_env demo_opts [] ''a'' (demo_world [''a'' \<mapsto> [1]])))
     ''a.locked'' \<noteq> None \<and>
   Removed ''a'' \<notin> set (trace (snd (lock_file demo_env
       (demo_opts\<lparr>suffix := [], overwrite := True\<rparr>) [] ''a''
       (demo_world [''a'' \<mapsto> [1]]))))"
proof -
  let ?w = "demo_world [''a'' \<mapsto> [1]]"
  let ?o = "demo_opts\<lparr>suffix := [], overwrite := True\<rparr>"
  obtain r w' where rw: "lock_file demo_env demo_opts [] ''a'' ?w = (r, w')" by force
  obtain r2 w2 where rw2: "lock_file demo_env ?o [] ''a'' ?w = (r2, w2)" by force
  have "\<exists>data w''. lock_file demo_env demo_opts [] ''a'' ?w = (Inr (), w'') \<and>
      trace w'' = [Wrote ''a.locked'' data, Removed ''a'']"
    using lock_file_ok_ex [of demo_opts demo_env ?w "''a''" "[1]" "[]"]
    by (auto simp add: demo_env_fields demo_world_fields demo_opts_fields os_path_exists_def)
  then have rem: "Removed ''a'' \<in> set (trace w')" using rw by auto
  have a: "Removed ''a'' \<in> set (trace w') \<longrightarrow>
      write_fault demo_env ''a.locked'' = NoFault \<and> fs w' ''a.locked'' \<noteq> None"
    using source_removed_only_after_write [of demo_env demo_opts "[]" "''a''" ?w r w'
        "''a.locked''"] rw
    by (auto simp: demo_opts_fields demo_world_fields)
  have b: "Removed ''a'' \<notin> set (trace w2)"
    using source_removed_only_after_write [of demo_env ?o "[]" "''a''" ?w r2 w2 "''a''"] rw2
    by (auto simp: demo_world_fields)
  show ?thesis using rem a b rw rw2 by simp
qed

section \<open>Failures of the cipher\<close>

lemma decrypt_cipher:
  assumes "block_sized L" "length k = 32"
  shows "AESCipher_decrypt L (cipher_with_key k) blob =
     (case b64decode L blob of
        None \<Rightarrow> Inl ValueError
      | Some d \<Rightarrow>
          if length d < 16 \<or> length d mod 16 \<noteq> 0 then Inl ValueError
          else if length d = 16 then Inl IndexError
          else (let pt = cbc_decrypt (block_decrypt L k) (take 16 d) (drop 16 d)
                in Inr (slice_to_minus pt (unat (last pt)))))"
proof (cases "b64decode L blob")
  case None
  then show ?thesis by (simp add: AESCipher_decrypt_def)
next
  case (Some d)
  show ?thesis
  proof (cases "length d < 16")
    case True
    then show ?thesis using Some assms(2)
      by (simp add: AESCipher_decrypt_def AES_new_def m_key_cipher)
  next
    case False
    then have iv: "length (take 16 d) = 16" by simp
    have m: "(length d - 16) mod 16 = length d mod 16"
      using False by (simp add: le_mod_geq)
    show ?thesis
    proof (cases "length d mod 16 = 0")
      case nz: False
      then show ?thesis using Some assms(2) False m iv
        by (simp add: AESCipher_decrypt_def AES_new_def AES_decrypt_def m_key_cipher Let_def)
    next
      case True
      let ?pt = "cbc_decrypt (block_decrypt L k) (take 16 d) (drop 16 d)"
      have sz: "\<And>b. length b = 16 \<Longrightarrow> length (block_decrypt L k b) = 16"
        using assms(1) by (simp add: block_sized_def)
      have "length (drop 16 d) mod 16 = 0" using True m by simp
      with sz iv have len: "length ?pt = length (drop 16 d)" by (rule length_cbc_decrypt)
      have dec: "AESCipher_decrypt L (cipher_with_key k) blob = AESCipher_unpad (cipher_with_key k) ?pt"
        using Some assms(2) False m iv True
        by (simp add: AESCipher_decrypt_def AES_new_def AES_decrypt_def m_key_cipher Let_def)
      show ?thesis
      proof (cases "length d = 16")
        case eq: True
        then have "?pt = []" using len by simp
        then show ?thesis using dec Some eq by (simp add: AESCipher_unpad_def)
      next
        case ne: False
        then have "?pt \<noteq> []" using len False by auto
        then show ?thesis using dec Some ne False True
          by (simp add: AESCipher_unpad_def Let_def)
      qed
    qed
  qed
qed

text \<open>
  Claim C4, amended. With a block permutation that keeps 16-byte blocks, \<^verbatim>\<open>decrypt\<close>
  of an initialised cipher raises exactly when base64 decoding fails or the decoded
  length is not 16 plus a positive multiple of 16: \<^verbatim>\<open>ValueError\<close> for a failed
  decoding, fewer than 16 bytes or a length that is no multiple of 16, and
  \<^verbatim>\<open>IndexError\<close> for exactly 16 bytes. Otherwise it returns the decrypted bytes
  stripped by their last byte, whatever that byte is.
\<close>

theorem decrypt_fails_exactly:
  assumes "block_sized L"
  shows "\<exists>self. AESCipher_init password = Inr self \<and>
     (b64decode L blob = None \<longrightarrow> AESCipher_decrypt L self blob = Inl ValueError) \<and>
     (\<forall>d. b64decode L blob = Some d \<longrightarrow>
        (length d < 16 \<or> length d mod 16 \<noteq> 0 \<longrightarrow>
           AESCipher_decrypt L self blob = Inl ValueError) \<and>
        (length d = 16 \<longrightarrow> AESCipher_decrypt L self blob = Inl IndexError) \<and>
        (32 \<le> length d \<and> length d mod 16 = 0 \<longrightarrow>
           (let pt = cbc_decrypt (block_decrypt L (m_key self)) (take 16 d) (drop 16 d)
            in AESCipher_decrypt L self blob = Inr (slice_to_minus pt (unat (last pt))))))"
proof -
  let ?k = "if 32 \<le> length password then take 32 password else spec_pad32 password"
  have k: "length ?k = 32" by (rule length_normalised)
  show ?thesis
    unfolding init_cipher
    by (rule exI [of _ "cipher_with_key ?k"])
       (auto simp add: decrypt_cipher [OF assms k] m_key_cipher Let_def simp del: One_nat_def)
qed

text \<open>
  Claim C4, as stated: a pad byte outside 1..32 makes \<^verbatim>\<open>decrypt\<close> fail. Here the
  decrypted block ends in 200 and \<^verbatim>\<open>decrypt\<close> returns the empty sequence.
\<close>

theorem decrypt_pad_byte_unchecked_counterexample:
  "AESCipher_init (replicate 32 0) = Inr (cipher_with_key (replicate 32 0)) \<and>
   AES_decrypt demo_lib \<lparr>aes_key = replicate 32 0, aes_iv = [0,0,0,0,0,0,0,0,0,0,0,0,0,0,0,0]\<rparr>
     [65,65,65,65,65,65,65,65,65,65,65,65,65,65,65,200] =
     Inr [65,65,65,65,65,65,65,65,65,65,65,65,65,65,65,200] \<and>
   AESCipher_decrypt demo_lib (cipher_with_key (replicate 32 0))
     ([0,0,0,0,0,0,0,0,0,0,0,0,0,0,0,0] @ [65,65,65,65,65,65,65,65,65,65,65,65,65,65,65,200]) =
     Inr []"
  by (simp add: init_cipher AESCipher_decrypt_def demo_lib_def cipher_with_key_def AES_new_def
      AES_decrypt_def cbc_decrypt.simps xor_bytes_def key_tag_replicate AESCipher_unpad_def
      slice_to_minus_def Let_def)

lemma demo_lib_b64: "b64decode demo_lib x = Some x" "b64encode demo_lib x = x"
  by (simp_all add: demo_lib_def)

lemma no_b64_sized: "block_sized (demo_lib\<lparr>b64decode := \<lambda>x. None\<rparr>)"
  using demo_lib_sized by (simp add: block_sized_def)

theorem decrypt_fails_exactly_witness:
  "(\<exists>self. AESCipher_init [] = Inr self \<and>
      AESCipher_decrypt (demo_lib\<lparr>b64decode := \<lambda>x. None\<rparr>) self [] = Inl ValueError) \<and>
   (\<exists>self. AESCipher_init [] = Inr self \<and>
      AESCipher_decrypt demo_lib self [1, 2, 3] = Inl ValueError) \<and>
   (\<exists>self. AESCipher_init [] = Inr self \<and>
      AESCipher_decrypt demo_lib self (replicate 16 0) = Inl IndexError) \<and>
   (\<exists>self r. AESCipher_init [] = Inr self \<and>
      AESCipher_decrypt demo_lib self (replicate 32 0) = Inr r)"
  using decrypt_fails_exactly [OF no_b64_sized, of "[]" "[]"]
    decrypt_fails_exactly [OF demo_lib_sized, of "[]" "[1, 2, 3]"]
    decrypt_fails_exactly [OF demo_lib_sized, of "[]" "replicate 16 0"]
    decrypt_fails_exactly [OF demo_lib_sized, of "[]" "replicate 32 0"]
  by (auto simp add: demo_lib_b64 Let_def)

lemma unlock_file_try:
  assumes "endswith p (suffix opts)"
    and "out = (if 0 < length (suffix opts) then slice_to_minus p (length (suffix opts)) else p)"
    and "cont opts \<or> overwrite opts \<or> \<not> os_path_exists env w out"
    and "fs w p = Some content" "\<not> read_denied env p"
  obtains w3 where
    "unlock_file env opts pw p w =
      (case unlock_try env opts pw p out content w3 of
         (Inl ValueError, w4) \<Rightarrow> get_cont_fct opts (UnlockFailed p) w4 | r \<Rightarrow> r)"
    "fs w3 = fs w" "rand_reads w3 = rand_reads w"
    "trace w3 = trace w @ (if 1 < verbose opts then [Msg INFO (UnlockInfo p out)] else []) @
       (if \<not> overwrite opts \<and> os_path_exists env w out
        then [Msg WARNING (FileExists out)] else [])"
proof -
  have "\<exists>w3. unlock_file env opts pw p w =
      (case unlock_try env opts pw p out content w3 of
         (Inl ValueError, w4) \<Rightarrow> get_cont_fct opts (UnlockFailed p) w4 | r \<Rightarrow> r) \<and>
    fs w3 = fs w \<and> rand_reads w3 = rand_reads w \<and>
    trace w3 = trace w @ (if 1 < verbose opts then [Msg INFO (UnlockInfo p out)] else []) @
       (if \<not> overwrite opts \<and> os_path_exists env w out
        then [Msg WARNING (FileExists out)] else [])"
    unfolding unlock_file_frame [OF assms(1,2)] by (rule frame_try [OF assms(3,4,5)])
  then show thesis using that by blast
qed

lemma lock_file_try:
  assumes "cont opts \<or> overwrite opts \<or> \<not> os_path_exists env w (p @ suffix opts)"
    and "fs w p = Some content" "\<not> read_denied env p"
  obtains w3 where
    "lock_file env opts pw p w =
      (case lock_try env opts pw p (p @ suffix opts) content w3 of
         (Inl ValueError, w4) \<Rightarrow> get_cont_fct opts (LockFailed p) w4 | r \<Rightarrow> r)"
    "fs w3 = fs w" "rand_reads w3 = rand_reads w"
    "trace w3 = trace w @
       (if 1 < verbose opts then [Msg INFO (LockInfo p (p @ suffix opts))] else []) @
       (if \<not> overwrite opts \<and> os_path_exists env w (p @ suffix opts)
        then [Msg WARNING (FileExists (p @ suffix opts))] else [])"
proof -
  have "\<exists>w3. lock_file env opts pw p w =
      (case lock_try env opts pw p (p @ suffix opts) content w3 of
         (Inl ValueError, w4) \<Rightarrow> get_cont_fct opts (LockFailed p) w4 | r \<Rightarrow> r) \<and>
    fs w3 = fs w \<and> rand_reads w3 = rand_reads w \<and>
    trace w3 = trace w @
       (if 1 < verbose opts then [Msg INFO (LockInfo p (p @ suffix opts))] else []) @
       (if \<not> overwrite opts \<and> os_path_exists env w (p @ suffix opts)
        then [Msg WARNING (FileExists (p @ suffix opts))] else [])"
    unfolding lock_file_frame by (rule frame_try [OF assms(1,2,3)])
  then show thesis using that by blast
qed

lemma unlock_file_ok:
  assumes "endswith p (suffix opts)"
    and "out = (if 0 < length (suffix opts) then slice_to_minus p (length (suffix opts)) else p)"
    and "cont opts \<or> overwrite opts \<or> \<not> os_path_exists env w out"
    and "fs w p = Some content" "\<not> read_denied env p"
    and "write_fault env out = NoFault"
    and "AESCipher_init pw = Inr aes" "AESCipher_decrypt (lib env) aes content = Inr data"
  shows "\<exists>w'. unlock_file env opts pw p w = (Inr (), w') \<and>
     fs w' = (if out \<noteq> p then (fs w)(out \<mapsto> data, p := None) else (fs w)(out \<mapsto> data)) \<and>
     trace w' = trace w @ (if 1 < verbose opts then [Msg INFO (UnlockInfo p out)] else []) @
       (if \<not> overwrite opts \<and> os_path_exists env w out
        then [Msg WARNING (FileExists out)] else []) @
       Wrote out data # (if out \<noteq> p then [Removed p] else [])"
proof -
  from assms(1-5) obtain w3 where w3: "unlock_file env opts pw p w =
      (case unlock_try env opts pw p out content w3 of
         (Inl ValueError, w4) \<Rightarrow> get_cont_fct opts (UnlockFailed p) w4 | r \<Rightarrow> r)"
    "fs w3 = fs w"
    "trace w3 = trace w @ (if 1 < verbose opts then [Msg INFO (UnlockInfo p out)] else []) @
       (if \<not> overwrite opts \<and> os_path_exists env w out
        then [Msg WARNING (FileExists out)] else [])"
    by (rule unlock_file_try)
  obtain wb where wb: "unlock_try env opts pw p out content w3 = (Inr (), wb)"
    "fs wb = (if out \<noteq> p then (fs w3)(out \<mapsto> data, p := None) else (fs w3)(out \<mapsto> data))"
    "trace wb = trace w3 @ Wrote out data # (if out \<noteq> p then [Removed p] else [])"
    using unlock_try_ok [OF assms(6,7,8), of opts p w3] by blast
  show ?thesis using w3 wb by (intro exI [of _ wb]) simp
qed

lemma unlock_file_cipher_failed:
  assumes "endswith p (suffix opts)"
    and "out = (if 0 < length (suffix opts) then slice_to_minus p (length (suffix opts)) else p)"
    and "cont opts \<or> overwrite opts \<or> \<not> os_path_exists env w out"
    and "fs w p = Some content" "\<not> read_denied env p"
    and "AESCipher_init pw = Inr aes" "AESCipher_decrypt (lib env) aes content = Inl ValueError"
  shows "\<exists>w'. unlock_file env opts pw p w =
       (if cont opts then Inr () else Inl (SystemExit 1), w') \<and>
     fs w' = fs w \<and>
     trace w' = trace w @ (if 1 < verbose opts then [Msg INFO (UnlockInfo p out)] else []) @
       (if \<not> overwrite opts \<and> os_path_exists env w out
        then [Msg WARNING (FileExists out)] else []) @
       [Msg (if cont opts then WARNING else ERROR) (UnlockFailed p)]"
proof -
  from assms(1-5) obtain w3 where w3: "unlock_file env opts pw p w =
      (case unlock_try env opts pw p out content w3 of
         (Inl ValueError, w4) \<Rightarrow> get_cont_fct opts (UnlockFailed p) w4 | r \<Rightarrow> r)"
    "fs w3 = fs w"
    "trace w3 = trace w @ (if 1 < verbose opts then [Msg INFO (UnlockInfo p out)] else []) @
       (if \<not> overwrite opts \<and> os_path_exists env w out
        then [Msg WARNING (FileExists out)] else [])"
    by (rule unlock_file_try)
  have "unlock_try env opts pw p out content w3 = (Inl ValueError, w3)"
    using assms(6,7) by (rule unlock_try_raises)
  then show ?thesis using w3
    by (intro exI [of _ "msg (if cont opts then WARNING else ERROR) (UnlockFailed p) w3"])
       (simp add: get_cont_fct_eq msg_fields)
qed

lemma unlock_file_index_error:
  assumes "endswith p (suffix opts)"
    and "out = (if 0 < length (suffix opts) then slice_to_minus p (length (suffix opts)) else p)"
    and "cont opts \<or> overwrite opts \<or> \<not> os_path_exists env w out"
    and "fs w p = Some content" "\<not> read_denied env p"
    and "AESCipher_init pw = Inr aes" "AESCipher_decrypt (lib env) aes content = Inl IndexError"
  shows "\<exists>w'. unlock_file env opts pw p w = (Inl IndexError, w') \<and> fs w' = fs w"
proof -
  from assms(1-5) obtain w3 where w3: "unlock_file env opts pw p w =
      (case unlock_try env opts pw p out content w3 of
         (Inl ValueError, w4) \<Rightarrow> get_cont_fct opts (UnlockFailed p) w4 | r \<Rightarrow> r)"
    "fs w3 = fs w"
    by (rule unlock_file_try)
  have "unlock_try env opts pw p out content w3 = (Inl IndexError, w3)"
    using assms(6,7) by (rule unlock_try_raises)
  then show ?thesis using w3 by (intro exI [of _ w3]) simp
qed

lemma decrypt_other_key_returns:
  assumes "lib_inverse L" "block_sized L" "length iv = 16"
  shows "\<exists>c1 c2 blob r. AESCipher_init pw1 = Inr c1 \<and> AESCipher_init pw2 = Inr c2 \<and>
     AESCipher_encrypt L c1 iv plain = Inr blob \<and> AESCipher_decrypt L c2 blob = Inr r"
proof -
  let ?k1 = "if 32 \<le> length pw1 then take 32 pw1 else spec_pad32 pw1"
  let ?k2 = "if 32 \<le> length pw2 then take 32 pw2 else spec_pad32 pw2"
  have k: "length ?k1 = 32" "length ?k2 = 32" by (rule length_normalised)+
  let ?ct = "cbc_encrypt (block_encrypt L ?k1) iv (spec_pad32 plain)"
  let ?blob = "b64encode L (iv @ ?ct)"
  have enc: "AESCipher_encrypt L (cipher_with_key ?k1) iv plain = Inr ?blob"
    using k(1) assms(3) by (rule encrypt_cipher)
  have sz: "\<And>b. length b = 16 \<Longrightarrow> length (block_encrypt L ?k1 b) = 16"
    using assms(2) by (simp add: block_sized_def)
  have m32: "length (spec_pad32 plain) mod 32 = 0" by (rule length_spec_pad32)
  then have m16: "length (spec_pad32 plain) mod 16 = 0"
    using mod_mod_cancel [of 16 32 "length (spec_pad32 plain)"] by simp
  have lct: "length ?ct = length (spec_pad32 plain)"
    using sz assms(3) m16 by (rule length_cbc_encrypt)
  have pos: "32 \<le> length (spec_pad32 plain)"
    using m32 by (cases "length (spec_pad32 plain) < 32") (auto simp: spec_pad32_def Let_def)
  have b64: "b64decode L ?blob = Some (iv @ ?ct)"
    using assms(1) by (simp add: lib_inverse_def)
  have ne: "spec_pad32 plain \<noteq> []" using pos by auto
  have "\<exists>r. AESCipher_decrypt L (cipher_with_key ?k2) ?blob = Inr r"
    using pos m16 lct assms(3) ne
    by (simp add: decrypt_cipher [OF assms(2) k(2)] b64 Let_def)
  then show ?thesis using enc by (simp add: init_cipher)
qed

text \<open>
  Claim C1, amended. For a file that \<^verbatim>\<open>unlock_file\<close> reads: when \<^verbatim>\<open>decrypt\<close>
  raises \<^verbatim>\<open>ValueError\<close>, the failure is reported through the message function
  (warning and return, or error and exit), no file changes and nothing is written or
  removed. When \<^verbatim>\<open>decrypt\<close> returns, whatever it returns is written and the source is
  removed, with no message. And \<^verbatim>\<open>decrypt\<close> returns for the blob of any
  \<^verbatim>\<open>encrypt\<close> under any password: a wrong key is not detected.
\<close>

theorem unlock_cipher_failure_policy:
  assumes "endswith p (suffix opts)"
    and "out = (if 0 < length (suffix opts) then slice_to_minus p (length (suffix opts)) else p)"
    and "cont opts \<or> overwrite opts \<or> \<not> os_path_exists env w out"
    and "fs w p = Some content" "\<not> read_denied env p"
  shows "\<exists>aes. AESCipher_init pw = Inr aes \<and>
     (AESCipher_decrypt (lib env) aes content = Inl ValueError \<longrightarrow>
        (\<exists>w'. unlock_file env opts pw p w =
             (if cont opts then Inr () else Inl (SystemExit 1), w') \<and>
           fs w' = fs w \<and>
           trace w' = trace w @
             (if 1 < verbose opts then [Msg INFO (UnlockInfo p out)] else []) @
             (if \<not> overwrite opts \<and> os_path_exists env w out
              then [Msg WARNING (FileExists out)] else []) @
             [Msg (if cont opts then WARNING else ERROR) (UnlockFailed p)])) \<and>
     (\<forall>data. AESCipher_decrypt (lib env) aes content = Inr data \<and>
          write_fault env out = NoFault \<longrightarrow>
        (\<exists>w'. unlock_file env opts pw p w = (Inr (), w') \<and>
           fs w' = (if out \<noteq> p then (fs w)(out \<mapsto> data, p := None)
                    else (fs w)(out \<mapsto> data)) \<and>
           trace w' = trace w @
             (if 1 < verbose opts then [Msg INFO (UnlockInfo p out)] else []) @
             (if \<not> overwrite opts \<and> os_path_exists env w out
              then [Msg WARNING (FileExists out)] else []) @
             Wrote out data # (if out \<noteq> p then [Removed p] else []))) \<and>
     (lib_inverse (lib env) \<and> block_sized (lib env) \<and> length iv = 16 \<longrightarrow>
        (\<exists>c1 blob r. AESCipher_init pw1 = Inr c1 \<and>
           AESCipher_encrypt (lib env) c1 iv plain = Inr blob \<and>
           AESCipher_decrypt (lib env) aes blob = Inr r))"
proof -
  obtain aes where aes: "AESCipher_init pw = Inr aes" by (simp add: init_cipher)
  have a: "AESCipher_decrypt (lib env) aes content = Inl ValueError \<longrightarrow>
        (\<exists>w'. unlock_file env opts pw p w =
             (if cont opts then Inr () else Inl (SystemExit 1), w') \<and>
           fs w' = fs w \<and>
           trace w' = trace w @
             (if 1 < verbose opts then [Msg INFO (UnlockInfo p out)] else []) @
             (if \<not> overwrite opts \<and> os_path_exists env w out
              then [Msg WARNING (FileExists out)] else []) @
             [Msg (if cont opts then WARNING else ERROR) (UnlockFailed p)])"
    using unlock_file_cipher_failed [OF assms aes] by blast
  have b: "\<forall>data. AESCipher_decrypt (lib env) aes content = Inr data \<and>
          write_fault env out = NoFault \<longrightarrow>
        (\<exists>w'. unlock_file env opts pw p w = (Inr (), w') \<and>
           fs w' = (if out \<noteq> p then (fs w)(out \<mapsto> data, p := None)
                    else (fs w)(out \<mapsto> data)) \<and>
           trace w' = trace w @
             (if 1 < verbose opts then [Msg INFO (UnlockInfo p out)] else []) @
             (if \<not> overwrite opts \<and> os_path_exists env w out
              then [Msg WARNING (FileExists out)] else []) @
             Wrote out data # (if out \<noteq> p then [Removed p] else []))"
    using unlock_file_ok [OF assms _ aes] by blast
  have c: "lib_inverse (lib env) \<and> block_sized (lib env) \<and> length iv = 16 \<longrightarrow>
        (\<exists>c1 blob r. AESCipher_init pw1 = Inr c1 \<and>
           AESCipher_encrypt (lib env) c1 iv plain = Inr blob \<and>
           AESCipher_decrypt (lib env) aes blob = Inr r)"
    using decrypt_other_key_returns [of "lib env" iv pw1 pw plain] aes by auto
  show ?thesis by (rule exI [of _ aes]) (intro conjI aes a b c)
qed

text \<open>
  Claim C1, as stated: decrypting with another key raises, and no zero-length destination
  is written before the source is deleted. Here the blob of password \<open>[30]\<close> is
  unlocked with the empty password: \<^verbatim>\<open>decrypt\<close> returns the empty sequence, which
  is written to \<open>a\<close>, and \<open>a.locked\<close> is removed.
\<close>

theorem unlock_wrong_key_silent_counterexample:
  "AESCipher_init [30] = Inr (cipher_with_key (30 # replicate 31 31)) \<and>
   AESCipher_init [] = Inr (cipher_with_key (replicate 32 32)) \<and>
   AESCipher_encrypt demo_lib (cipher_with_key (30 # replicate 31 31)) (replicate 16 0)
     [104, 105] = Inr demo_blob \<and>
   AESCipher_decrypt demo_lib (cipher_with_key (replicate 32 32)) demo_blob = Inr [] \<and>
   fst (unlock_file demo_env (demo_opts\<lparr>lock := False, unlock := True\<rparr>) [] ''a.locked''
     (demo_world [''a.locked'' \<mapsto> demo_blob])) = Inr () \<and>
   fs (snd (unlock_file demo_env (demo_opts\<lparr>lock := False, unlock := True\<rparr>) [] ''a.locked''
     (demo_world [''a.locked'' \<mapsto> demo_blob]))) ''a'' = Some [] \<and>
   fs (snd (unlock_file demo_env (demo_opts\<lparr>lock := False, unlock := True\<rparr>) [] ''a.locked''
     (demo_world [''a.locked'' \<mapsto> demo_blob]))) ''a.locked'' = None \<and>
   trace (snd (unlock_file demo_env (demo_opts\<lparr>lock := False, unlock := True\<rparr>) [] ''a.locked''
     (demo_world [''a.locked'' \<mapsto> demo_blob]))) = [Wrote ''a'' [], Removed ''a.locked'']"
  by code_simp

lemma demo_unlock_dest:
  "endswith ''a.locked'' ''.locked''"
  "slice_to_minus ''a.locked'' (length ''.locked'') = ''a''"
  by (simp_all add: endswith_def slice_to_minus_def)

lemma demo_short_blob:
  "AESCipher_init [] = Inr aes \<Longrightarrow> AESCipher_decrypt demo_lib aes [1, 2, 3] = Inl ValueError"
  using decrypt_cipher [OF demo_lib_sized, of "spec_pad32 []" "[1, 2, 3]"]
  by (simp add: init_cipher demo_lib_b64 length_spec_pad32_short)

theorem unlock_cipher_failure_policy_witness:
  "fst (unlock_file demo_env (demo_opts\<lparr>cont := True\<rparr>) [] ''a.locked''
     (demo_world [''a.locked'' \<mapsto> [1, 2, 3]])) = Inr () \<and>
   fs (snd (unlock_file demo_env (demo_opts\<lparr>cont := True\<rparr>) [] ''a.locked''
     (demo_world [''a.locked'' \<mapsto> [1, 2, 3]]))) = [''a.locked'' \<mapsto> [1, 2, 3]] \<and>
   trace (snd (unlock_file demo_env (demo_opts\<lparr>cont := True\<rparr>) [] ''a.locked''
     (demo_world [''a.locked'' \<mapsto> [1, 2, 3]]))) = [Msg WARNING (UnlockFailed ''a.locked'')]"
proof -
  let ?o = "demo_opts\<lparr>cont := True\<rparr>"
  let ?w = "demo_world [''a.locked'' \<mapsto> [1, 2, 3]]"
  have e: "endswith ''a.locked'' (suffix ?o)"
    by (simp add: demo_opts_fields demo_unlock_dest)
  have o: "''a'' = (if 0 < length (suffix ?o)
      then slice_to_minus ''a.locked'' (length (suffix ?o)) else ''a.locked'')"
    using demo_unlock_dest(2) by (simp add: demo_opts_fields)
  have pass: "cont ?o \<or> overwrite ?o \<or> \<not> os_path_exists demo_env ?w ''a''" by simp
  have rd: "fs ?w ''a.locked'' = Some [1, 2, 3]" "\<not> read_denied demo_env ''a.locked''"
    by (simp_all add: demo_world_fields demo_env_fields)
  have ex: "\<not> os_path_exists demo_env ?w ''a''"
    by (simp add: os_path_exists_def demo_world_fields demo_env_fields)
  from unlock_cipher_failure_policy [OF e o pass rd, of "[]"]
  obtain aes where aes: "AESCipher_init [] = Inr aes"
    and v: "AESCipher_decrypt (lib demo_env) aes [1, 2, 3] = Inl ValueError \<longrightarrow>
       (\<exists>w'. unlock_file demo_env ?o [] ''a.locked'' ?w =
            (if cont ?o then Inr () else Inl (SystemExit 1), w') \<and> fs w' = fs ?w \<and>
          trace w' = trace ?w @ (if 1 < verbose ?o then [Msg INFO (UnlockInfo ''a.locked'' ''a'')] else []) @
             (if \<not> overwrite ?o \<and> os_path_exists demo_env ?w ''a''
              then [Msg WARNING (FileExists ''a'')] else []) @
             [Msg (if cont ?o then WARNING else ERROR) (UnlockFailed ''a.locked'')])"
    by blast
  have "AESCipher_decrypt (lib demo_env) aes [1, 2, 3] = Inl ValueError"
    using demo_short_blob [OF aes] by (simp add: demo_env_fields)
  with v obtain w' where "unlock_file demo_env ?o [] ''a.locked'' ?w = (Inr (), w')"
    "fs w' = fs ?w" "trace w' = trace ?w @ [Msg WARNING (UnlockFailed ''a.locked'')]"
    using ex by (auto simp: demo_opts_fields)
  then show ?thesis by (simp add: demo_world_fields)
qed

section \<open>The continuation policy\<close>

lemma process_file_exists_fatal:
  assumes "lock opts \<and> out = p @ suffix opts \<or>
      \<not> lock opts \<and> endswith p (suffix opts) \<and>
      out = (if 0 < length (suffix opts) then slice_to_minus p (length (suffix opts)) else p)"
    and "\<not> cont opts" "\<not> overwrite opts" "os_path_exists env w out"
  shows "\<exists>w'. process_file env opts pw p w = (Inl (SystemExit 1), w') \<and> fs w' = fs w \<and>
     last (trace w') = Msg ERROR (FileExists out)"
proof -
  let ?w = "w\<lparr>stats := (stats w)\<lparr>files := files (stats w) + 1\<rparr>\<rparr>"
  have ex: "os_path_exists env ?w out" using assms(4) by (simp add: counted_fields)
  from assms(1) show ?thesis
  proof (elim disjE conjE)
    assume a: "lock opts" "out = p @ suffix opts"
    show ?thesis
      using frame_exists_fatal [OF assms(2,3) ex, where im = "LockInfo p out" and p = p
          and T = "lock_try env opts pw p out" and fm = "LockFailed p"] a
      by (auto simp: process_file_eq lock_file_frame counted_fields)
  next
    assume a: "\<not> lock opts" "endswith p (suffix opts)"
      "out = (if 0 < length (suffix opts) then slice_to_minus p (length (suffix opts)) else p)"
    show ?thesis
      using frame_exists_fatal [OF assms(2,3) ex, where im = "UnlockInfo p out" and p = p
          and T = "unlock_try env opts pw p out" and fm = "UnlockFailed p"] a(1)
      by (auto simp: process_file_eq unlock_file_frame [OF a(2,3)] counted_fields)
  qed
qed

lemma process_file_read_failed:
  assumes "lock opts \<and> out = p @ suffix opts \<or>
      \<not> lock opts \<and> endswith p (suffix opts) \<and>
      out = (if 0 < length (suffix opts) then slice_to_minus p (length (suffix opts)) else p)"
    and "cont opts \<or> overwrite opts \<or> \<not> os_path_exists env w out"
    and "read_denied env p \<or> fs w p = None"
  shows "\<exists>w'. process_file env opts pw p w =
       (if cont opts then Inr () else Inl (SystemExit 1), w') \<and> fs w' = fs w \<and>
     last (trace w') = Msg (if cont opts then WARNING else ERROR) (ReadFailed p)"
proof -
  let ?w = "w\<lparr>stats := (stats w)\<lparr>files := files (stats w) + 1\<rparr>\<rparr>"
  have pass: "cont opts \<or> overwrite opts \<or> \<not> os_path_exists env ?w out"
    using assms(2) by (simp add: counted_fields)
  have rd: "read_denied env p \<or> fs ?w p = None" using assms(3) by simp
  from assms(1) show ?thesis
  proof (elim disjE conjE)
    assume a: "lock opts" "out = p @ suffix opts"
    show ?thesis
      using frame_read_failed [OF pass rd, where im = "LockInfo p out"
          and T = "lock_try env opts pw p out" and fm = "LockFailed p"] a
      by (auto simp: process_file_eq lock_file_frame counted_fields)
  next
    assume a: "\<not> lock opts" "endswith p (suffix opts)"
      "out = (if 0 < length (suffix opts) then slice_to_minus p (length (suffix opts)) else p)"
    show ?thesis
      using frame_read_failed [OF pass rd, where im = "UnlockInfo p out"
          and T = "unlock_try env opts pw p out" and fm = "UnlockFailed p"] a(1)
      by (auto simp: process_file_eq unlock_file_frame [OF a(2,3)] counted_fields)
  qed
qed

lemma process_file_cipher_failed:
  assumes "\<not> lock opts" "endswith p (suffix opts)"
    and "out = (if 0 < length (suffix opts) then slice_to_minus p (length (suffix opts)) else p)"
    and "cont opts \<or> overwrite opts \<or> \<not> os_path_exists env w out"
    and "fs w p = Some content" "\<not> read_denied env p"
    and "AESCipher_init pw = Inr aes" "AESCipher_decrypt (lib env) aes content = Inl ValueError"
  shows "\<exists>w'. process_file env opts pw p w =
       (if cont opts then Inr () else Inl (SystemExit 1), w') \<and> fs w' = fs w \<and>
     last (trace w') = Msg (if cont opts then WARNING else ERROR) (UnlockFailed p)"
proof -
  let ?w = "w\<lparr>stats := (stats w)\<lparr>files := files (stats w) + 1\<rparr>\<rparr>"
  have pass: "cont opts \<or> overwrite opts \<or> \<not> os_path_exists env ?w out"
    using assms(4) by (simp add: counted_fields)
  have rd: "fs ?w p = Some content" using assms(5) by simp
  show ?thesis
    using unlock_file_cipher_failed [OF assms(2,3) pass rd assms(6,7,8)] assms(1)
    by (auto simp: process_file_eq counted_fields)
qed

lemma process_file_shape:
  assumes "process_file env opts pw p w = (r, w')"
    and "lock opts \<and> out = p @ suffix opts \<or>
      \<not> lock opts \<and>
      out = (if 0 < length (suffix opts) then slice_to_minus p (length (suffix opts)) else p)"
  shows "\<exists>pre. (\<forall>e \<in> set pre. \<exists>l m. e = Msg l m) \<and>
      ((trace w' = trace w @ pre \<and> fs w' = fs w) \<or>
       (\<exists>data. trace w' = trace w @ pre @ [Wrote out data, Removed p] \<and> out \<noteq> p \<and>
            write_fault env out = NoFault \<and> r = Inr () \<and>
            fs w' = (fs w)(out \<mapsto> data, p := None)) \<or>
       (\<exists>data. trace w' = trace w @ pre @ [Wrote out data] \<and> out = p \<and>
            write_fault env out = NoFault \<and> r = Inr () \<and> fs w' = (fs w)(out \<mapsto> data)) \<or>
       (\<exists>l. trace w' = trace w @ pre @ [Msg l (WriteFailed out)] \<and>
            write_fault env out \<noteq> NoFault \<and>
            (\<forall>q. q \<noteq> out \<longrightarrow> fs w' q = fs w q) \<and> (fs w out \<noteq> None \<longrightarrow> fs w' out \<noteq> None)))"
proof -
  let ?w = "w\<lparr>stats := (stats w)\<lparr>files := files (stats w) + 1\<rparr>\<rparr>"
  from assms(2) show ?thesis
  proof (elim disjE conjE)
    assume a: "lock opts" "out = p @ suffix opts"
    then have "lock_file env opts pw p ?w = (r, w')" using assms(1) by (simp add: process_file_eq)
    from lock_file_shape [OF this] show ?thesis unfolding a(2) by (simp only: counted_fields)
  next
    assume a: "\<not> lock opts"
      "out = (if 0 < length (suffix opts) then slice_to_minus p (length (suffix opts)) else p)"
    then have "unlock_file env opts pw p ?w = (r, w')" using assms(1) by (simp add: process_file_eq)
    from unlock_file_shape [OF this a(2)] show ?thesis by (simp only: counted_fields)
  qed
qed

lemma process_file_write_fault:
  assumes "process_file env opts pw p w = (r, w')"
    and "lock opts \<and> out = p @ suffix opts \<or>
      \<not> lock opts \<and>
      out = (if 0 < length (suffix opts) then slice_to_minus p (length (suffix opts)) else p)"
    and "write_fault env out \<noteq> NoFault"
  shows "(\<forall>q. q \<noteq> out \<longrightarrow> fs w' q = fs w q) \<and> (fs w out \<noteq> None \<longrightarrow> fs w' out \<noteq> None) \<and>
     (\<forall>q. Removed q \<notin> set (trace w') - set (trace w))"
proof -
  from process_file_shape [OF assms(1,2)] obtain pre where
    pre: "\<forall>e \<in> set pre. \<exists>l m. e = Msg l m"
    and c: "(trace w' = trace w @ pre \<and> fs w' = fs w) \<or>
       (\<exists>l. trace w' = trace w @ pre @ [Msg l (WriteFailed out)] \<and>
            (\<forall>q. q \<noteq> out \<longrightarrow> fs w' q = fs w q) \<and> (fs w out \<noteq> None \<longrightarrow> fs w' out \<noteq> None))"
    using assms(3) by auto
  have "\<And>q. Removed q \<notin> set pre" using pre by auto
  then show ?thesis using c by auto
qed

lemma for_each_append:
  "for_each body (xs @ ys) w =
     (case for_each body xs w of
        (Inl e, w') \<Rightarrow> (Inl e, w')
      | (Inr _, w') \<Rightarrow> for_each body ys w')"
  by (induction xs arbitrary: w) (auto split: prod.splits sum.splits)

lemma for_each_stops:
  assumes "for_each body xs w = (Inr (), w1)" "body f w1 = (Inl e, w2)"
  shows "for_each body (xs @ f # ys) w = (Inl e, w2)"
  using assms by (simp add: for_each_append)

lemma for_each_continues:
  assumes "for_each body xs w = (Inr (), w1)" "body f w1 = (Inr (), w2)"
  shows "for_each body (xs @ f # ys) w = for_each body ys w2"
  using assms by (simp add: for_each_append)

lemma lock_try_write_failed_keeps:
  assumes "write_fault env out \<noteq> NoFault"
  shows "\<exists>wb. lock_try env opts pw p out content wa =
       (if cont opts then Inr () else Inl (SystemExit 1), wb) \<and>
     (\<forall>q. q \<noteq> out \<longrightarrow> fs wb q = fs wa q) \<and>
     trace wb = trace wa @ [Msg (if cont opts then WARNING else ERROR) (WriteFailed out)]"
proof -
  from lock_try_write_failed [OF assms init_cipher refl refl, where opts = opts and pw = pw
      and p = p and wa = wa and content = content]
  obtain wb d where "lock_try env opts pw p out content wa =
       (if cont opts then Inr () else Inl (SystemExit 1), wb)"
    "fs wb = (case write_fault env out of WriteFails n \<Rightarrow> (fs wa)(out \<mapsto> take n d)
              | _ \<Rightarrow> fs wa)"
    "trace wb = trace wa @ [Msg (if cont opts then WARNING else ERROR) (WriteFailed out)]"
    by blast
  then show ?thesis by (intro exI [of _ wb]) (auto split: write_fault.splits)
qed

lemma lock_file_write_failed:
  assumes "cont opts \<or> overwrite opts \<or> \<not> os_path_exists env w (p @ suffix opts)"
    and "fs w p = Some content" "\<not> read_denied env p"
    and "write_fault env (p @ suffix opts) \<noteq> NoFault"
  shows "\<exists>w'. lock_file env opts pw p w =
       (if cont opts then Inr () else Inl (SystemExit 1), w') \<and>
     last (trace w') = Msg (if cont opts then WARNING else ERROR) (WriteFailed (p @ suffix opts)) \<and>
     (\<forall>q. q \<noteq> p @ suffix opts \<longrightarrow> fs w' q = fs w q)"
proof -
  let ?out = "p @ suffix opts"
  from assms(1-3) obtain w3 where w3: "lock_file env opts pw p w =
      (case lock_try env opts pw p ?out content w3 of
         (Inl ValueError, w4) \<Rightarrow> get_cont_fct opts (LockFailed p) w4 | r \<Rightarrow> r)"
    "fs w3 = fs w"
    by (rule lock_file_try)
  obtain wb where wb: "lock_try env opts pw p ?out content w3 =
       (if cont opts then Inr () else Inl (SystemExit 1), wb)"
    "\<forall>q. q \<noteq> ?out \<longrightarrow> fs wb q = fs w3 q"
    "trace wb = trace w3 @ [Msg (if cont opts then WARNING else ERROR) (WriteFailed ?out)]"
    using lock_try_write_failed_keeps [OF assms(4), where opts = opts and pw = pw
      and p = p and wa = w3 and content = content]
    by blast
  have keep: "\<forall>q. q \<noteq> ?out \<longrightarrow> fs wb q = fs w q"
    using wb(2) w3(2) by simp
  show ?thesis using w3 wb(1,3) keep
    by (intro exI [of _ wb]) (auto split: if_splits)
qed

lemma unlock_file_write_failed:
  assumes "endswith p (suffix opts)"
    and "out = (if 0 < length (suffix opts) then slice_to_minus p (length (suffix opts)) else p)"
    and "cont opts \<or> overwrite opts \<or> \<not> os_path_exists env w out"
    and "fs w p = Some content" "\<not> read_denied env p"
    and "write_fault env out \<noteq> NoFault"
    and "AESCipher_init pw = Inr aes" "AESCipher_decrypt (lib env) aes content = Inr data"
  shows "\<exists>w'. unlock_file env opts pw p w =
       (if cont opts then Inr () else Inl (SystemExit 1), w') \<and>
     last (trace w') = Msg (if cont opts then WARNING else ERROR) (WriteFailed out) \<and>
     (\<forall>q. q \<noteq> out \<longrightarrow> fs w' q = fs w q)"
proof -
  from assms(1-5) obtain w3 where w3: "unlock_file env opts pw p w =
      (case unlock_try env opts pw p out content w3 of
         (Inl ValueError, w4) \<Rightarrow> get_cont_fct opts (UnlockFailed p) w4 | r \<Rightarrow> r)"
    "fs w3 = fs w"
    by (rule unlock_file_try)
  obtain wb where wb: "unlock_try env opts pw p out content w3 =
       (if cont opts then Inr () else Inl (SystemExit 1), wb)"
    "fs wb = (case write_fault env out of WriteFails n \<Rightarrow> (fs w3)(out \<mapsto> take n data)
              | _ \<Rightarrow> fs w3)"
    "trace wb = trace w3 @ [Msg (if cont opts then WARNING else ERROR) (WriteFailed out)]"
    using unlock_try_write_failed [OF assms(6,7,8), where opts = opts and p = p and wa = w3]
    by blast
  have keep: "\<forall>q. q \<noteq> out \<longrightarrow> fs wb q = fs w q"
    using wb(2) w3(2) by (auto split: write_fault.splits)
  show ?thesis using w3 wb(1,3) keep
    by (intro exI [of _ wb]) (auto split: if_splits)
qed

lemma process_file_write_failed:
  assumes "lock opts \<and> out = p @ suffix opts \<or>
      \<not> lock opts \<and> endswith p (suffix opts) \<and>
      out = (if 0 < length (suffix opts) then slice_to_minus p (length (suffix opts)) else p)"
    and "cont opts \<or> overwrite opts \<or> \<not> os_path_exists env w out"
    and "fs w p = Some content" "\<not> read_denied env p"
    and "write_fault env out \<noteq> NoFault"
    and "lock opts \<or> (\<exists>aes data. AESCipher_init pw = Inr aes \<and>
           AESCipher_decrypt (lib env) aes content = Inr data)"
  shows "\<exists>w'. process_file env opts pw p w =
       (if cont opts then Inr () else Inl (SystemExit 1), w') \<and>
     last (trace w') = Msg (if cont opts then WARNING else ERROR) (WriteFailed out) \<and>
     (\<forall>q. q \<noteq> out \<longrightarrow> fs w' q = fs w q)"
proof -
  let ?w = "w\<lparr>stats := (stats w)\<lparr>files := files (stats w) + 1\<rparr>\<rparr>"
  have pass: "cont opts \<or> overwrite opts \<or> \<not> os_path_exists env ?w out"
    using assms(2) by (simp add: counted_fields)
  have rd: "fs ?w p = Some content" using assms(3) by simp
  from assms(1) show ?thesis
  proof (elim disjE conjE)
    assume a: "lock opts" "out = p @ suffix opts"
    show ?thesis
      using lock_file_write_failed [OF pass [unfolded a(2)] rd assms(4) assms(5) [unfolded a(2)],
          where pw = pw] a
      by (auto simp: process_file_eq counted_fields)
  next
    assume a: "\<not> lock opts" "endswith p (suffix opts)"
      "out = (if 0 < length (suffix opts) then slice_to_minus p (length (suffix opts)) else p)"
    from assms(6) a(1) obtain aes data where d: "AESCipher_init pw = Inr aes"
      "AESCipher_decrypt (lib env) aes content = Inr data" by blast
    show ?thesis
      using unlock_file_write_failed [OF a(2,3) pass rd assms(4,5) d] a(1)
      by (auto simp: process_file_eq counted_fields)
  qed
qed

lemma process_isfile:
  "os_path_isfile w p \<Longrightarrow> process env opts pw p w = process_file env opts pw p w"
  by (simp add: process_def)

lemma run_stops:
  assumes "FILES opts = xs @ f # ys"
    and "for_each (process env opts pw) xs
           (w\<lparr>stats := \<lparr>locked = 0, unlocked = 0, skipped = 0, files = 0, dirs = 0,
                          read = 0, written = 0\<rparr>\<rparr>) = (Inr (), w1)"
    and "process env opts pw f w1 = (Inl e, w2)"
  shows "run env opts pw w = (Inl e, w2)"
  using for_each_stops [OF assms(2,3), of ys] assms(1) by (simp add: run_def)

text \<open>
  Claim C6, amended. The message function of \<^verbatim>\<open>get_cont_fct\<close> prints an error and
  raises \<^verbatim>\<open>SystemExit(1)\<close> without \<^verbatim>\<open>--cont\<close>, and prints a warning and returns
  with it. An exception out of an entry ends \<^verbatim>\<open>run\<close> there, in the world as the entry
  left it, so that no later entry is processed; an entry that returns is followed by the
  next one. For a file \<open>p\<close> with destination \<open>out\<close>: an existing destination without
  \<^verbatim>\<open>--overwrite\<close> and without \<^verbatim>\<open>--cont\<close>, a read failure and a cipher
  \<^verbatim>\<open>ValueError\<close> are reported and leave every file as it was; a write failure is
  reported and leaves every file but the destination as it was.
\<close>

theorem continuation_policy:
  assumes "lock opts \<and> out = p @ suffix opts \<or>
      \<not> lock opts \<and> endswith p (suffix opts) \<and>
      out = (if 0 < length (suffix opts) then slice_to_minus p (length (suffix opts)) else p)"
  shows "get_cont_fct opts m w =
       (if cont opts then (Inr (), msg WARNING m w) else (Inl (SystemExit 1), msg ERROR m w)) \<and>
     (FILES opts = xs @ f # ys \<and>
      for_each (process env opts pw) xs
        (ws\<lparr>stats := \<lparr>locked = 0, unlocked = 0, skipped = 0, files = 0, dirs = 0,
                       read = 0, written = 0\<rparr>\<rparr>) = (Inr (), w1) \<and>
      process env opts pw f w1 = (Inl e, w2) \<longrightarrow>
        run env opts pw ws = (Inl e, w2)) \<and>
     (for_each (process env opts pw) xs w0 = (Inr (), w1) \<and>
      process env opts pw f w1 = (Inr (), w2) \<longrightarrow>
        for_each (process env opts pw) (xs @ f # ys) w0 =
        for_each (process env opts pw) ys w2) \<and>
     (os_path_isfile w p \<longrightarrow> process env opts pw p w = process_file env opts pw p w) \<and>
     (\<not> cont opts \<and> \<not> overwrite opts \<and> os_path_exists env w out \<longrightarrow>
        (\<exists>w'. process_file env opts pw p w = (Inl (SystemExit 1), w') \<and> fs w' = fs w \<and>
           last (trace w') = Msg ERROR (FileExists out))) \<and>
     ((cont opts \<or> overwrite opts \<or> \<not> os_path_exists env w out) \<and>
      (read_denied env p \<or> fs w p = None) \<longrightarrow>
        (\<exists>w'. process_file env opts pw p w =
             (if cont opts then Inr () else Inl (SystemExit 1), w') \<and> fs w' = fs w \<and>
           last (trace w') = Msg (if cont opts then WARNING else ERROR) (ReadFailed p))) \<and>
     (\<not> lock opts \<and> (cont opts \<or> overwrite opts \<or> \<not> os_path_exists env w out) \<and>
      fs w p = Some content \<and> \<not> read_denied env p \<and> AESCipher_init pw = Inr aes \<and>
      AESCipher_decrypt (lib env) aes content = Inl ValueError \<longrightarrow>
        (\<exists>w'. process_file env opts pw p w =
             (if cont opts then Inr () else Inl (SystemExit 1), w') \<and> fs w' = fs w \<and>
           last (trace w') = Msg (if cont opts then WARNING else ERROR) (UnlockFailed p))) \<and>
     ((cont opts \<or> overwrite opts \<or> \<not> os_path_exists env w out) \<and>
      fs w p = Some content \<and> \<not> read_denied env p \<and> write_fault env out \<noteq> NoFault \<and>
      (lock opts \<or> (\<exists>a data. AESCipher_init pw = Inr a \<and>
           AESCipher_decrypt (lib env) a content = Inr data)) \<longrightarrow>
        (\<exists>w'. process_file env opts pw p w =
             (if cont opts then Inr () else Inl (SystemExit 1), w') \<and>
           last (trace w') = Msg (if cont opts then WARNING else ERROR) (WriteFailed out) \<and>
           (\<forall>q. q \<noteq> out \<longrightarrow> fs w' q = fs w q)))"
proof (intro conjI impI)
  show "get_cont_fct opts m w =
       (if cont opts then (Inr (), msg WARNING m w) else (Inl (SystemExit 1), msg ERROR m w))"
    by (simp add: get_cont_fct_eq)
next
  assume "FILES opts = xs @ f # ys \<and>
      for_each (process env opts pw) xs
        (ws\<lparr>stats := \<lparr>locked = 0, unlocked = 0, skipped = 0, files = 0, dirs = 0,
                       read = 0, written = 0\<rparr>\<rparr>) = (Inr (), w1) \<and>
      process env opts pw f w1 = (Inl e, w2)"
  then show "run env opts pw ws = (Inl e, w2)" by (blast intro: run_stops)
next
  assume "for_each (process env opts pw) xs w0 = (Inr (), w1) \<and>
      process env opts pw f w1 = (Inr (), w2)"
  then show "for_each (process env opts pw) (xs @ f # ys) w0 =
        for_each (process env opts pw) ys w2"
    by (blast intro: for_each_continues)
next
  assume "os_path_isfile w p"
  then show "process env opts pw p w = process_file env opts pw p w" by (rule process_isfile)
next
  assume "\<not> cont opts \<and> \<not> overwrite opts \<and> os_path_exists env w out"
  then show "\<exists>w'. process_file env opts pw p w = (Inl (SystemExit 1), w') \<and> fs w' = fs w \<and>
           last (trace w') = Msg ERROR (FileExists out)"
    using process_file_exists_fatal [OF assms] by blast
next
  assume "(cont opts \<or> overwrite opts \<or> \<not> os_path_exists env w out) \<and>
      (read_denied env p \<or> fs w p = None)"
  then show "\<exists>w'. process_file env opts pw p w =
             (if cont opts then Inr () else Inl (SystemExit 1), w') \<and> fs w' = fs w \<and>
           last (trace w') = Msg (if cont opts then WARNING else ERROR) (ReadFailed p)"
    using process_file_read_failed [OF assms] by blast
next
  assume a: "\<not> lock opts \<and> (cont opts \<or> overwrite opts \<or> \<not> os_path_exists env w out) \<and>
      fs w p = Some content \<and> \<not> read_denied env p \<and> AESCipher_init pw = Inr aes \<and>
      AESCipher_decrypt (lib env) aes content = Inl ValueError"
  with assms have "endswith p (suffix opts)"
    "out = (if 0 < length (suffix opts) then slice_to_minus p (length (suffix opts)) else p)"
    by auto
  then show "\<exists>w'. process_file env opts pw p w =
             (if cont opts then Inr () else Inl (SystemExit 1), w') \<and> fs w' = fs w \<and>
           last (trace w') = Msg (if cont opts then WARNING else ERROR) (UnlockFailed p)"
    using process_file_cipher_failed [where env = env and opts = opts and pw = pw and p = p
        and w = w and out = out and content = content and aes = aes] a
    by blast
next
  assume "(cont opts \<or> overwrite opts \<or> \<not> os_path_exists env w out) \<and>
      fs w p = Some content \<and> \<not> read_denied env p \<and> write_fault env out \<noteq> NoFault \<and>
      (lock opts \<or> (\<exists>a data. AESCipher_init pw = Inr a \<and>
           AESCipher_decrypt (lib env) a content = Inr data))"
  then show "\<exists>w'. process_file env opts pw p w =
             (if cont opts then Inr () else Inl (SystemExit 1), w') \<and>
           last (trace w') = Msg (if cont opts then WARNING else ERROR) (WriteFailed out) \<and>
           (\<forall>q. q \<noteq> out \<longrightarrow> fs w' q = fs w q)"
    using process_file_write_failed [OF assms, where env = env and w = w and content = content
        and pw = pw]
    by blast
qed

text \<open>
  Claim C6, as stated: with \<^verbatim>\<open>--cont\<close> the failing file is left unmodified, with no
  partial destination. A write that fails after the file was opened leaves the
  destination truncated: in place, \<open>a.txt\<close> itself is left empty; with the suffix,
  \<open>a.txt.locked\<close> is left with the first five bytes of the blob.
\<close>

theorem write_failure_counterexample:
  "fst (run (demo_env\<lparr>write_fault := \<lambda>q. WriteFails 0\<rparr>)
      (demo_opts\<lparr>cont := True, overwrite := True, suffix := [], FILES := [''a.txt'']\<rparr>) []
      (demo_world [''a.txt'' \<mapsto> [1]])) = Inr () \<and>
   fs (snd (run (demo_env\<lparr>write_fault := \<lambda>q. WriteFails 0\<rparr>)
      (demo_opts\<lparr>cont := True, overwrite := True, suffix := [], FILES := [''a.txt'']\<rparr>) []
      (demo_world [''a.txt'' \<mapsto> [1]]))) ''a.txt'' = Some [] \<and>
   trace (snd (run (demo_env\<lparr>write_fault := \<lambda>q. WriteFails 0\<rparr>)
      (demo_opts\<lparr>cont := True, overwrite := True, suffix := [], FILES := [''a.txt'']\<rparr>) []
      (demo_world [''a.txt'' \<mapsto> [1]]))) = [Msg WARNING (WriteFailed ''a.txt'')] \<and>
   fs (snd (run (demo_env\<lparr>write_fault := \<lambda>q. WriteFails 5\<rparr>)
      (demo_opts\<lparr>cont := True, FILES := [''a.txt'']\<rparr>) []
      (demo_world [''a.txt'' \<mapsto> [1]]))) ''a.txt.locked'' = Some [0, 0, 0, 0, 0]"
  by code_simp

theorem continuation_policy_witness:
  "fst (run (demo_env\<lparr>read_denied := \<lambda>q. q = ''a''\<rparr>) (demo_opts\<lparr>FILES := [''a'', ''b'']\<rparr>) []
     (demo_world [''a'' \<mapsto> [1], ''b'' \<mapsto> [2]])) = Inl (SystemExit 1) \<and>
   fs (snd (run (demo_env\<lparr>read_denied := \<lambda>q. q = ''a''\<rparr>) (demo_opts\<lparr>FILES := [''a'', ''b'']\<rparr>) []
     (demo_world [''a'' \<mapsto> [1], ''b'' \<mapsto> [2]]))) = [''a'' \<mapsto> [1], ''b'' \<mapsto> [2]]"
proof -
  let ?env = "demo_env\<lparr>read_denied := \<lambda>q. q = ''a''\<rparr>"
  let ?opts = "demo_opts\<lparr>FILES := [''a'', ''b'']\<rparr>"
  let ?w = "demo_world [''a'' \<mapsto> [1], ''b'' \<mapsto> [2]]"
  have H: "lock ?opts \<and> ''a.locked'' = ''a'' @ suffix ?opts \<or>
      \<not> lock ?opts \<and> endswith ''a'' (suffix ?opts) \<and>
      ''a.locked'' = (if 0 < length (suffix ?opts)
        then slice_to_minus ''a'' (length (suffix ?opts)) else ''a'')"
    by (simp add: demo_opts_fields)
  have zero: "?w\<lparr>stats := \<lparr>locked = 0, unlocked = 0, skipped = 0, files = 0, dirs = 0,
                       read = 0, written = 0\<rparr>\<rparr> = ?w"
    by (simp add: demo_world_def)
  have pre: "(cont ?opts \<or> overwrite ?opts \<or> \<not> os_path_exists ?env ?w ''a.locked'') \<and>
      (read_denied ?env ''a'' \<or> fs ?w ''a'' = None)"
    by (simp add: os_path_exists_def demo_world_fields demo_env_def)
  have isf: "os_path_isfile ?w ''a''" by (simp add: os_path_isfile_def demo_world_fields)
  note T = continuation_policy [OF H, where env = ?env and pw = "[]" and w = ?w]
  from T pre obtain w' where pf: "process_file ?env ?opts [] ''a'' ?w =
      (if cont ?opts then Inr () else Inl (SystemExit 1), w')" "fs w' = fs ?w"
    by blast
  have p: "process ?env ?opts [] ''a'' ?w = (Inl (SystemExit 1), w')"
    using T isf pf(1) by (simp add: demo_opts_fields)
  have "run ?env ?opts [] ?w = (Inl (SystemExit 1), w')"
    using continuation_policy [OF H, where env = ?env and pw = "[]" and ws = ?w and xs = "[]"
        and f = "''a''" and ys = "[''b'']" and ?w1.0 = ?w and e = "SystemExit 1" and ?w2.0 = w'] p
    by (simp add: zero)
  then show ?thesis using pf(2) by (simp add: demo_world_fields)
qed

text \<open>
  With \<^verbatim>\<open>--cont\<close> the existence check only prints: a file that can be read and
  written is locked over an existing destination.
\<close>

lemma lock_file_exists_cont:
  assumes "cont opts" "\<not> overwrite opts" "fs w (p @ suffix opts) = Some old"
    and "fs w p = Some content" "\<not> read_denied env p"
    and "write_fault env (p @ suffix opts) = NoFault" "suffix opts \<noteq> []"
  shows "\<exists>w' data. lock_file env opts pw p w = (Inr (), w') \<and> fs w' p = None \<and>
     fs w' (p @ suffix opts) = Some data \<and>
     trace w' = trace w @
       (if 1 < verbose opts then [Msg INFO (LockInfo p (p @ suffix opts))] else []) @
       [Msg WARNING (FileExists (p @ suffix opts)), Wrote (p @ suffix opts) data, Removed p]"
proof -
  have ex: "os_path_exists env w (p @ suffix opts)"
    using assms(3) by (simp add: os_path_exists_def)
  have pass: "cont opts \<or> overwrite opts \<or> \<not> os_path_exists env w (p @ suffix opts)"
    using assms(1) by simp
  from lock_file_ok_ex [OF pass assms(4,5,6), where pw = pw]
  show ?thesis using ex assms(2,7) by auto
qed

lemma check_existence_cont_returns:
  "cont opts \<Longrightarrow> fst (check_existence env opts p w) = Inr ()"
  by (simp add: check_existence_eq)

text \<open>
  Claim C2, at the input where the code departs from it: \<^verbatim>\<open>--cont\<close> without
  \<^verbatim>\<open>--overwrite\<close>, and both \<open>a.txt\<close> and \<open>a.txt.locked\<close> exist. The warning is
  printed, then \<open>a.txt.locked\<close> is overwritten with the new blob and \<open>a.txt\<close> is
  removed.
\<close>

theorem lock_existing_dest_cont_overwrites:
  "cont (demo_opts\<lparr>cont := True\<rparr>) \<and> \<not> overwrite (demo_opts\<lparr>cont := True\<rparr>) \<and>
   fst (lock_file demo_env (demo_opts\<lparr>cont := True\<rparr>) [] ''a.txt''
     (demo_world [''a.txt'' \<mapsto> [1], ''a.txt.locked'' \<mapsto> [2]])) = Inr () \<and>
   fs (snd (lock_file demo_env (demo_opts\<lparr>cont := True\<rparr>) [] ''a.txt''
     (demo_world [''a.txt'' \<mapsto> [1], ''a.txt.locked'' \<mapsto> [2]]))) ''a.txt'' = None \<and>
   fs (snd (lock_file demo_env (demo_opts\<lparr>cont := True\<rparr>) [] ''a.txt''
     (demo_world [''a.txt'' \<mapsto> [1], ''a.txt.locked'' \<mapsto> [2]]))) ''a.txt.locked'' =
     Some [0, 0, 0, 0, 0, 0, 0, 0, 0, 0, 0, 0, 0, 0, 0, 0,
           33, 63, 63, 63, 63, 63, 63, 63, 63, 63, 63, 63, 63, 63, 63, 63,
           30, 0, 0, 0, 0, 0, 0, 0, 0, 0, 0, 0, 0, 0, 0, 0] \<and>
   trace (snd (lock_file demo_env (demo_opts\<lparr>cont := True\<rparr>) [] ''a.txt''
     (demo_world [''a.txt'' \<mapsto> [1], ''a.txt.locked'' \<mapsto> [2]]))) =
     [Msg WARNING (FileExists ''a.txt.locked''),
      Wrote ''a.txt.locked''
        [0, 0, 0, 0, 0, 0, 0, 0, 0, 0, 0, 0, 0, 0, 0, 0,
         33, 63, 63, 63, 63, 63, 63, 63, 63, 63, 63, 63, 63, 63, 63, 63,
         30, 0, 0, 0, 0, 0, 0, 0, 0, 0, 0, 0, 0, 0, 0, 0],
      Removed ''a.txt'']"
  by code_simp

end
